theory Spec2Isabelle
  imports Main "HOL-Library.Sublist" "HOL-Library.AList"
begin

section \<open>JavaScript values\<close>

text \<open>
  The command \<^verbatim>\<open>oas2json\<close> (file \<^verbatim>\<open>src/commands/oas2json.ts\<close>) works on the values
  that \<^verbatim>\<open>YAML.parse\<close> returns: plain JSON-like trees. A value is one of the constructors
  below; \<open>JUndef\<close> is JavaScript's \<^verbatim>\<open>undefined\<close>, which a property read of a missing key
  returns and which \<^verbatim>\<open>JSON.stringify\<close> leaves out of objects.

  An object is the list of its own enumerable properties \<^emph>\<open>in enumeration order\<close>
  (the order of \<^verbatim>\<open>Object.entries\<close> and \<^verbatim>\<open>JSON.stringify\<close>); its keys are distinct in
  every object the program sees, but no definition below relies on that.

  Limits of the model, stated once:
  \<^item> numbers are integers (fractions, NaN and infinities are not modelled);
  \<^item> a string is a list of bytes; the program only compares and splits on ASCII
    characters, which no multi-byte sequence contains;
  \<^item> the tree has no shared sub-objects (no YAML alias is expanded into two references
    to one object), so that in-place mutation of one entry is a functional update;
  \<^item> properties that the program sets on an array (\<^verbatim>\<open>title\<close>, \<^verbatim>\<open>$id\<close>) are not kept:
    \<^verbatim>\<open>JSON.stringify\<close> does not print them.
\<close>

datatype json =
    JUndef
  | JNull
  | JBool bool
  | JNum int
  | JStr string
  | JArr "json list"
  | JObj "(string \<times> json) list"

datatype error =
    TypeError
  | FsError
  | CollaboratorError

type_synonym props = "(string \<times> json) list"

definition dquote :: char where
  "dquote = CHR 0x22"

definition bslash :: char where
  "bslash = CHR 0x5C"

definition squote :: char where
  "squote = CHR 0x27"

definition backtick :: char where
  "backtick = CHR 0x60"

definition newline :: char where
  "newline = CHR 0x0A"

text \<open>\<^verbatim>\<open>Array.prototype.join\<close> on strings.\<close>

fun join :: "string \<Rightarrow> string list \<Rightarrow> string" where
  "join sep [] = []"
| "join sep [x] = x"
| "join sep (x # y # ys) = x @ sep @ join sep (y # ys)"

text \<open>\<^verbatim>\<open>String.prototype.split\<close> with a one-character separator: never an empty list.\<close>

fun split_on :: "char \<Rightarrow> string \<Rightarrow> string list" where
  "split_on c [] = [[]]"
| "split_on c (x # xs) =
     (if x = c then [] # split_on c xs
      else (case split_on c xs of
              [] \<Rightarrow> [[x]]
            | w # ws \<Rightarrow> (x # w) # ws))"

text \<open>\<^verbatim>\<open>String.prototype.includes\<close>.\<close>

fun str_includes :: "string \<Rightarrow> string \<Rightarrow> bool" where
  "str_includes [] pat = (pat = [])"
| "str_includes (c # cs) pat = (prefix pat (c # cs) \<or> str_includes cs pat)"

subsection \<open>Numbers as text\<close>

fun digits :: "nat \<Rightarrow> string" where
  "digits n =
     (if n < 10 then [char_of (48 + n)]
      else digits (n div 10) @ [char_of (48 + n mod 10)])"

definition show_int :: "int \<Rightarrow> string" where
  "show_int i = (if i < 0 then CHR ''-'' # digits (nat (- i)) else digits (nat i))"

definition is_digit :: "char \<Rightarrow> bool" where
  "is_digit c = (c \<in> set ''0123456789'')"

definition dec_val :: "string \<Rightarrow> nat" where
  "dec_val s = foldl (\<lambda>a c. 10 * a + (of_char c - 48)) 0 s"

text \<open>
  An \<^emph>\<open>array index\<close> of ECMAScript: the canonical decimal text of an integer below
  \<open>2^32 - 1\<close>. Own properties with such keys are enumerated first, in ascending order.
\<close>

definition is_array_index :: "string \<Rightarrow> bool" where
  "is_array_index s =
     (s \<noteq> [] \<and> list_all is_digit s \<and> (s = ''0'' \<or> hd s \<noteq> CHR ''0'')
      \<and> dec_val s < 4294967295)"

subsection \<open>Own properties\<close>

definition has_own :: "props \<Rightarrow> string \<Rightarrow> bool" where
  "has_own kvs k = (map_of kvs k \<noteq> None)"

definition obj_get :: "props \<Rightarrow> string \<Rightarrow> json" where
  "obj_get kvs k = (case map_of kvs k of None \<Rightarrow> JUndef | Some v \<Rightarrow> v)"

fun obj_update :: "string \<Rightarrow> json \<Rightarrow> props \<Rightarrow> props" where
  "obj_update k v [] = []"
| "obj_update k v ((k', v') # kvs) =
     (if k' = k then (k, v) # kvs else (k', v') # obj_update k v kvs)"

fun insert_index :: "string \<Rightarrow> json \<Rightarrow> props \<Rightarrow> props" where
  "insert_index k v [] = [(k, v)]"
| "insert_index k v ((k', v') # kvs) =
     (if is_array_index k' \<and> dec_val k' < dec_val k
      then (k', v') # insert_index k v kvs
      else (k, v) # (k', v') # kvs)"

text \<open>
  The assignment \<^verbatim>\<open>obj[k] = v\<close> on a plain object: an existing own property keeps its
  place; a new array-index key goes among the index keys; any other new key goes last.
  Assigning an object to the key \<^verbatim>\<open>__proto__\<close> of an object literal sets its prototype
  and creates no own property.
\<close>

definition obj_set :: "string \<Rightarrow> json \<Rightarrow> props \<Rightarrow> props" where
  "obj_set k v kvs =
     (if has_own kvs k then obj_update k v kvs
      else if k = ''__proto__'' then kvs
      else if is_array_index k then insert_index k v kvs
      else kvs @ [(k, v)])"

text \<open>\<^verbatim>\<open>delete obj[k]\<close>.\<close>

definition obj_delete :: "string \<Rightarrow> props \<Rightarrow> props" where
  "obj_delete k kvs = filter (\<lambda>kv. fst kv \<noteq> k) kvs"

text \<open>
  The property read \<^verbatim>\<open>v[k]\<close>: a TypeError on \<^verbatim>\<open>undefined\<close> and \<^verbatim>\<open>null\<close>, the own
  property of an object, an element or the length of an array or string, and
  \<^verbatim>\<open>undefined\<close> otherwise.
\<close>

definition js_get :: "json \<Rightarrow> string \<Rightarrow> error + json" where
  "js_get v k =
     (case v of
        JUndef \<Rightarrow> Inl TypeError
      | JNull \<Rightarrow> Inl TypeError
      | JObj kvs \<Rightarrow> Inr (obj_get kvs k)
      | JArr xs \<Rightarrow>
          Inr (if is_array_index k \<and> dec_val k < length xs then xs ! dec_val k
               else if k = ''length'' then JNum (int (length xs))
               else JUndef)
      | JStr s \<Rightarrow>
          Inr (if is_array_index k \<and> dec_val k < length s then JStr [s ! dec_val k]
               else if k = ''length'' then JNum (int (length s))
               else JUndef)
      | _ \<Rightarrow> Inr JUndef)"

text \<open>The operator \<^verbatim>\<open>k in v\<close>: a TypeError unless \<open>v\<close> is an object or an array.\<close>

definition js_in :: "string \<Rightarrow> json \<Rightarrow> error + bool" where
  "js_in k v =
     (case v of
        JObj kvs \<Rightarrow> Inr (has_own kvs k)
      | JArr xs \<Rightarrow> Inr ((is_array_index k \<and> dec_val k < length xs) \<or> k = ''length'')
      | _ \<Rightarrow> Inl TypeError)"

text \<open>Truthiness, as \<^verbatim>\<open>if (v)\<close> and \<^verbatim>\<open>!v\<close> read it.\<close>

definition truthy :: "json \<Rightarrow> bool" where
  "truthy v =
     (case v of
        JUndef \<Rightarrow> False
      | JNull \<Rightarrow> False
      | JBool b \<Rightarrow> b
      | JNum i \<Rightarrow> i \<noteq> 0
      | JStr s \<Rightarrow> s \<noteq> []
      | _ \<Rightarrow> True)"

text \<open>\<^verbatim>\<open>Object.entries\<close>.\<close>

definition object_entries :: "json \<Rightarrow> error + props" where
  "object_entries v =
     (case v of
        JUndef \<Rightarrow> Inl TypeError
      | JNull \<Rightarrow> Inl TypeError
      | JObj kvs \<Rightarrow> Inr kvs
      | JArr xs \<Rightarrow> Inr (zip (map digits [0..<length xs]) xs)
      | JStr s \<Rightarrow> Inr (zip (map digits [0..<length s]) (map (\<lambda>c. JStr [c]) s))
      | _ \<Rightarrow> Inr [])"

text \<open>
  The conversion of a value to a property key (\<^verbatim>\<open>ToString\<close>): an array prints its
  elements joined by commas, with nothing for \<^verbatim>\<open>null\<close> and \<^verbatim>\<open>undefined\<close>.
\<close>

fun to_string :: "json \<Rightarrow> string"
  and to_string_elems :: "json list \<Rightarrow> string list" where
  "to_string JUndef = ''undefined''"
| "to_string JNull = ''null''"
| "to_string (JBool b) = (if b then ''true'' else ''false'')"
| "to_string (JNum i) = show_int i"
| "to_string (JStr s) = s"
| "to_string (JArr xs) = join '','' (to_string_elems xs)"
| "to_string (JObj kvs) = ''[object Object]''"
| "to_string_elems [] = []"
| "to_string_elems (x # xs) =
     (if x = JUndef \<or> x = JNull then [] else to_string x) # to_string_elems xs"

subsection \<open>\<^verbatim>\<open>JSON.stringify(value, null, 2)\<close>\<close>

definition hex_digit :: "nat \<Rightarrow> char" where
  "hex_digit n = ''0123456789abcdef'' ! n"

text \<open>The characters below the space: the three high bits of a byte below 32 are zero.\<close>

definition is_control :: "char \<Rightarrow> bool" where
  "is_control c = (case c of Char b0 b1 b2 b3 b4 b5 b6 b7 \<Rightarrow> \<not> (b5 \<or> b6 \<or> b7))"

definition escape_char :: "char \<Rightarrow> string" where
  "escape_char c =
     (if c = dquote then [bslash, dquote]
      else if c = bslash then [bslash, bslash]
      else if \<not> is_control c then [c]
      else if c = CHR 0x08 then [bslash, CHR ''b'']
      else if c = CHR 0x0C then [bslash, CHR ''f'']
      else if c = CHR 0x0A then [bslash, CHR ''n'']
      else if c = CHR 0x0D then [bslash, CHR ''r'']
      else if c = CHR 0x09 then [bslash, CHR ''t'']
      else [bslash, CHR ''u'', CHR ''0'', CHR ''0'',
            hex_digit (of_char c div 16), hex_digit (of_char c mod 16)])"

definition quote :: "string \<Rightarrow> string" where
  "quote s = dquote # concat (map escape_char s) @ [dquote]"

primrec indent :: "nat \<Rightarrow> string" where
  "indent 0 = []"
| "indent (Suc n) = CHR '' '' # CHR '' '' # indent n"

text \<open>
  \<open>serialize n v\<close> prints \<open>v\<close> at nesting depth \<open>n\<close>. An \<^verbatim>\<open>undefined\<close> array element
  prints as \<^verbatim>\<open>null\<close>; an object member whose value is \<^verbatim>\<open>undefined\<close> is left out.
\<close>

fun serialize :: "nat \<Rightarrow> json \<Rightarrow> string"
  and serialize_elems :: "nat \<Rightarrow> json list \<Rightarrow> string list"
  and serialize_members :: "nat \<Rightarrow> props \<Rightarrow> string list" where
  "serialize n JUndef = ''null''"
| "serialize n JNull = ''null''"
| "serialize n (JBool b) = (if b then ''true'' else ''false'')"
| "serialize n (JNum i) = show_int i"
| "serialize n (JStr s) = quote s"
| "serialize n (JArr xs) =
     (if xs = [] then ''[]''
      else ''['' @ [newline] @ indent (Suc n)
           @ join ('','' @ [newline] @ indent (Suc n)) (serialize_elems (Suc n) xs)
           @ [newline] @ indent n @ '']'')"
| "serialize n (JObj kvs) =
     (if serialize_members (Suc n) kvs = [] then ''{}''
      else ''{'' @ [newline] @ indent (Suc n)
           @ join ('','' @ [newline] @ indent (Suc n)) (serialize_members (Suc n) kvs)
           @ [newline] @ indent n @ ''}'')"
| "serialize_elems n [] = []"
| "serialize_elems n (x # xs) = serialize n x # serialize_elems n xs"
| "serialize_members n [] = []"
| "serialize_members n ((k, v) # kvs) =
     (if v = JUndef then serialize_members n kvs
      else (quote k @ '': '' @ serialize n v) # serialize_members n kvs)"

text \<open>The result \<open>None\<close> is JavaScript's \<^verbatim>\<open>undefined\<close>: nothing to print.\<close>

definition JSON_stringify :: "json \<Rightarrow> string option" where
  "JSON_stringify v = (if v = JUndef then None else Some (serialize 0 v))"

section \<open>The module's constants\<close>

definition COMPONENT_KINDS :: "string list" where
  "COMPONENT_KINDS =
     [''callbacks'', ''examples'', ''headers'', ''links'', ''parameters'',
      ''requestBodies'', ''responses'', ''schemas'', ''securitySchemes'']"

definition ref_prefixes :: "string list" where
  "ref_prefixes = map (\<lambda>k. ''#/components/'' @ k @ ''/'') COMPONENT_KINDS"

text \<open>
  \<^verbatim>\<open>COMPONENT_REF_REGEXP\<close> tried at the start of a string: one of the nine prefixes, then
  one or more characters other than the double quote, as many as there are. The result
  is the matched text and what follows it.
\<close>

definition COMPONENT_REF_REGEXP_at :: "string \<Rightarrow> (string \<times> string) option" where
  "COMPONENT_REF_REGEXP_at s =
     (case find (\<lambda>p. prefix p s \<and> takeWhile (\<lambda>c. c \<noteq> dquote) (drop (length p) s) \<noteq> [])
             ref_prefixes of
        None \<Rightarrow> None
      | Some p \<Rightarrow>
          Some (p @ takeWhile (\<lambda>c. c \<noteq> dquote) (drop (length p) s),
                dropWhile (\<lambda>c. c \<noteq> dquote) (drop (length p) s)))"

text \<open>The characters \<^verbatim>\<open>INVALID_URI_CHARS_REGEXP\<close> does not match.\<close>

definition uri_char :: "char \<Rightarrow> bool" where
  "uri_char c =
     (c \<in> set ''abcdefghijklmnopqrstuvwxyzABCDEFGHIJKLMNOPQRSTUVWXYZ0123456789''
      \<or> c \<in> set ''-._~:/?#[]@!$&()*+,;='' \<or> c = squote)"

text \<open>\<^verbatim>\<open>s.replace(INVALID_URI_CHARS_REGEXP, '')\<close>.\<close>

definition strip_invalid_uri_chars :: "string \<Rightarrow> string" where
  "strip_invalid_uri_chars s = filter uri_char s"

definition METHODS :: "string list" where
  "METHODS = [''get'', ''post'', ''put'', ''delete'', ''options'', ''head'', ''patch'']"

definition PARAMETERS_KEYWORD :: string where
  "PARAMETERS_KEYWORD = ''parameters''"

definition EXTRACTION_PARAMETERS_KEYWORDS :: "string list" where
  "EXTRACTION_PARAMETERS_KEYWORDS = [''query'', ''path'']"

section \<open>String matching and replacement\<close>

lemma COMPONENT_REF_REGEXP_at_shorter:
  assumes "COMPONENT_REF_REGEXP_at s = Some (m, rest)"
  shows "length rest < length s"
proof -
  from assms obtain p where
    p: "prefix p s" "takeWhile (\<lambda>c. c \<noteq> dquote) (drop (length p) s) \<noteq> []"
    and rest: "rest = dropWhile (\<lambda>c. c \<noteq> dquote) (drop (length p) s)"
    by (auto simp: COMPONENT_REF_REGEXP_at_def split: option.splits dest: find_Some_iff[THEN iffD1])
  define t where "t = takeWhile (\<lambda>c. c \<noteq> dquote) (drop (length p) s)"
  have "length t + length rest = length (drop (length p) s)"
    unfolding rest t_def by (metis length_append takeWhile_dropWhile_id)
  moreover have "1 \<le> length t"
    using p(2) unfolding t_def[symmetric] by (cases t) auto
  moreover have "length (drop (length p) s) \<le> length s"
    by simp
  ultimately show ?thesis by linarith
qed

text \<open>
  \<^verbatim>\<open>s.match(COMPONENT_REF_REGEXP)\<close> with the global flag: every match, left to right, the
  search resuming where the last match ended. The empty list stands for \<^verbatim>\<open>null\<close>, on
  which \<^verbatim>\<open>refs?.forEach\<close> does nothing.
\<close>

function match_COMPONENT_REF :: "string \<Rightarrow> string list" where
  "match_COMPONENT_REF [] = []"
| "match_COMPONENT_REF (c # cs) =
     (case COMPONENT_REF_REGEXP_at (c # cs) of
        None \<Rightarrow> match_COMPONENT_REF cs
      | Some (m, rest) \<Rightarrow> m # match_COMPONENT_REF rest)"
  by pat_completeness auto
termination
  by (relation "measure length") (auto dest: COMPONENT_REF_REGEXP_at_shorter)

text \<open>The first occurrence of \<open>pat\<close> in a string: the text before it and the text after it.\<close>

fun split_first :: "string \<Rightarrow> string \<Rightarrow> (string \<times> string) option" where
  "split_first pat [] = (if pat = [] then Some ([], []) else None)"
| "split_first pat (c # cs) =
     (if prefix pat (c # cs) then Some ([], drop (length pat) (c # cs))
      else (case split_first pat cs of
              None \<Rightarrow> None
            | Some (b, a) \<Rightarrow> Some (c # b, a)))"

text \<open>
  The replacement text of \<^verbatim>\<open>String.prototype.replace\<close> is a template: \<^verbatim>\<open>$$\<close> stands for a
  dollar sign, \<^verbatim>\<open>$&\<close> for the matched text, \<^verbatim>\<open>$`\<close> for the text before the match and
  \<^verbatim>\<open>$'\<close> for the text after it. With a string pattern there are no groups, and every
  other use of the dollar sign stands for itself.
\<close>

fun get_substitution :: "string \<Rightarrow> string \<Rightarrow> string \<Rightarrow> string \<Rightarrow> string" where
  "get_substitution m b a [] = []"
| "get_substitution m b a [c] = [c]"
| "get_substitution m b a (c # d # r) =
     (if c = CHR ''$'' \<and> d = CHR ''$'' then CHR ''$'' # get_substitution m b a r
      else if c = CHR ''$'' \<and> d = CHR ''&'' then m @ get_substitution m b a r
      else if c = CHR ''$'' \<and> d = backtick then b @ get_substitution m b a r
      else if c = CHR ''$'' \<and> d = squote then a @ get_substitution m b a r
      else c # get_substitution m b a (d # r))"

text \<open>\<^verbatim>\<open>s.replace(pat, rep)\<close> with a string pattern: the first occurrence only.\<close>

definition string_replace :: "string \<Rightarrow> string \<Rightarrow> string \<Rightarrow> string" where
  "string_replace s pat rep =
     (case split_first pat s of
        None \<Rightarrow> s
      | Some (b, a) \<Rightarrow> b @ get_substitution pat b a rep @ a)"

text \<open>\<^verbatim>\<open>ref.split('/').slice(-1)\<close>, as the template literal prints it.\<close>

definition last_segment :: "string \<Rightarrow> string" where
  "last_segment s = rev (takeWhile (\<lambda>c. c \<noteq> CHR ''/'') (rev s))"

text \<open>Lines 119 to 123 of \<^verbatim>\<open>processSchema\<close>: the rewriting of the references.\<close>

definition rewrite_refs :: "string \<Rightarrow> string" where
  "rewrite_refs schemaAsString =
     foldl (\<lambda>acc ref. string_replace acc ref (last_segment ref @ ''.json''))
       schemaAsString (match_COMPONENT_REF schemaAsString)"

section \<open>Schema adaptation\<close>

text \<open>
  \<^verbatim>\<open>generatedSchema.format?.includes('date')\<close>: nothing on a missing or null format, the
  substring test on a string, the membership test on an array, and a TypeError on any
  other value, which has no method \<^verbatim>\<open>includes\<close>.
\<close>

definition format_includes_date :: "json \<Rightarrow> error + bool" where
  "format_includes_date f =
     (case f of
        JUndef \<Rightarrow> Inr False
      | JNull \<Rightarrow> Inr False
      | JStr s \<Rightarrow> Inr (str_includes s ''date'')
      | JArr xs \<Rightarrow> Inr (List.member xs (JStr ''date''))
      | _ \<Rightarrow> Inl TypeError)"

text \<open>
  \<^verbatim>\<open>adaptSchema\<close> mutates its first argument; the model returns the mutated value. The
  module is an ECMAScript module, hence strict: \<^verbatim>\<open>delete\<close> raises on \<^verbatim>\<open>null\<close> and
  \<^verbatim>\<open>undefined\<close>, and the assignment of \<^verbatim>\<open>title\<close> raises on a string, number or boolean.
\<close>

fun adaptSchema :: "json \<Rightarrow> json \<Rightarrow> string \<Rightarrow> error + json" where
  "adaptSchema (JObj kvs) name filename =
     (let sanitizedFilename = strip_invalid_uri_chars filename;
          s1 = obj_delete ''$schema'' kvs;
          s2 = obj_set ''title'' name s1;
          s3 = obj_set ''$id'' (JStr (sanitizedFilename @ ''.json'')) s2
      in case format_includes_date (obj_get s3 ''format'') of
           Inl e \<Rightarrow> Inl e
         | Inr b \<Rightarrow> Inr (JObj (if b then obj_set ''tsType'' (JStr ''Date'') s3 else s3)))"
| "adaptSchema (JArr xs) name filename = Inr (JArr xs)"
| "adaptSchema v name filename = Inl TypeError"

section \<open>Synthetic parameter schemas\<close>

text \<open>A loop whose body may raise: \<^verbatim>\<open>forEach\<close> and \<^verbatim>\<open>reduce\<close> over a pure accumulator.\<close>

fun reduce :: "('a \<Rightarrow> 's \<Rightarrow> error + 's) \<Rightarrow> 'a list \<Rightarrow> 's \<Rightarrow> error + 's" where
  "reduce f [] s = Inr s"
| "reduce f (x # xs) s = (case f x s of Inl e \<Rightarrow> Inl e | Inr s' \<Rightarrow> reduce f xs s')"

text \<open>
  The body of the loop of \<^verbatim>\<open>buildSchemaFromParameters\<close>, on the pair of \<^verbatim>\<open>properties\<close> and
  \<^verbatim>\<open>requiredList\<close>. Destructuring \<^verbatim>\<open>null\<close> or \<^verbatim>\<open>undefined\<close> raises.
\<close>

fun add_parameter :: "json \<Rightarrow> props \<times> json list \<Rightarrow> error + props \<times> json list" where
  "add_parameter parameter (properties, requiredList) =
     (case js_get parameter ''name'' of
        Inl e \<Rightarrow> Inl e
      | Inr name \<Rightarrow>
     (case js_get parameter ''required'' of
        Inl e \<Rightarrow> Inl e
      | Inr required \<Rightarrow>
     (case js_get parameter ''schema'' of
        Inl e \<Rightarrow> Inl e
      | Inr schema \<Rightarrow>
          if \<not> truthy name then Inr (properties, requiredList)
          else Inr (obj_set (to_string name) (JObj [(''schema'', schema)]) properties,
                    if truthy required then requiredList @ [name] else requiredList))))"

declare add_parameter.simps [simp del]

definition buildSchemaFromParameters :: "json list \<Rightarrow> error + json" where
  "buildSchemaFromParameters parameters =
     (case reduce add_parameter parameters ([], []) of
        Inl e \<Rightarrow> Inl e
      | Inr (properties, requiredList) \<Rightarrow>
          Inr (JObj [(''type'', JStr ''object''),
                     (''properties'', JObj properties),
                     (''required'', JArr requiredList),
                     (''additionalProperties'', JBool False)]))"

section \<open>Paths and the file system\<close>

text \<open>
  Node's POSIX \<^verbatim>\<open>path.normalize\<close> on the segments of a path: empty segments and \<^verbatim>\<open>.\<close>
  are dropped, \<^verbatim>\<open>..\<close> removes the segment before it; above the start of a relative
  path (\<open>allowAboveRoot\<close>) it is kept, above the root it is dropped. The second argument
  holds the segments already read, last first.
\<close>

fun normalize_segs :: "bool \<Rightarrow> string list \<Rightarrow> string list \<Rightarrow> string list" where
  "normalize_segs allowAboveRoot acc [] = rev acc"
| "normalize_segs allowAboveRoot acc (s # ss) =
     (if s = [] \<or> s = ''.'' then normalize_segs allowAboveRoot acc ss
      else if s = ''..'' then
        (case acc of
           [] \<Rightarrow> normalize_segs allowAboveRoot (if allowAboveRoot then [''..''] else []) ss
         | t # ts \<Rightarrow>
             if t = ''..'' then normalize_segs allowAboveRoot (if allowAboveRoot then ''..'' # acc else acc) ss
             else normalize_segs allowAboveRoot ts ss)
      else normalize_segs allowAboveRoot (s # acc) ss)"

definition path_normalize :: "string \<Rightarrow> string" where
  "path_normalize p =
     (if p = [] then ''.''
      else let isAbsolute = (hd p = CHR ''/'');
               trailingSeparator = (last p = CHR ''/'');
               body = join ''/'' (normalize_segs (\<not> isAbsolute) [] (split_on CHR ''/'' p))
           in if body = [] then (if isAbsolute then ''/'' else if trailingSeparator then ''./'' else ''.'')
              else (if isAbsolute then ''/'' else [])
                   @ body @ (if trailingSeparator then ''/'' else []))"

text \<open>\<^verbatim>\<open>path.join(a, b)\<close>: the non-empty arguments joined by a slash, then normalised.\<close>

definition path_join :: "string \<Rightarrow> string \<Rightarrow> string" where
  "path_join a b =
     (if a = [] \<and> b = [] then ''.''
      else if a = [] then path_normalize b
      else if b = [] then path_normalize a
      else path_normalize (a @ ''/'' @ b))"

text \<open>
  The file system: the working directory of the process, the regular files with their
  contents and the directories, each named by the segments of its absolute path. The
  root directory \<open>[]\<close> always exists. Permissions, links and limits on names are not
  modelled.
\<close>

record filesystem =
  cwd :: "string list"
  files :: "(string list \<times> string) list"
  dirs :: "string list list"

definition resolve :: "filesystem \<Rightarrow> string \<Rightarrow> string list" where
  "resolve fs p =
     normalize_segs False []
       ((if p \<noteq> [] \<and> hd p = CHR ''/'' then [] else cwd fs) @ split_on CHR ''/'' p)"

definition is_file :: "filesystem \<Rightarrow> string list \<Rightarrow> bool" where
  "is_file fs q = (map_of (files fs) q \<noteq> None)"

definition is_dir :: "filesystem \<Rightarrow> string list \<Rightarrow> bool" where
  "is_dir fs q = (q = [] \<or> q \<in> set (dirs fs))"

text \<open>\<^verbatim>\<open>fs.removeSync\<close> of fs-extra: the path and everything below it; no error when absent.\<close>

definition removeSync :: "string \<Rightarrow> filesystem \<Rightarrow> filesystem" where
  "removeSync p fs =
     fs\<lparr>files := filter (\<lambda>f. \<not> prefix (resolve fs p) (fst f)) (files fs),
        dirs := filter (\<lambda>d. \<not> prefix (resolve fs p) d) (dirs fs)\<rparr>"

text \<open>
  \<^verbatim>\<open>fs.ensureDirSync\<close>: the directory and its missing ancestors are created; an error when
  the path or one of its ancestors is a regular file.
\<close>

definition ensureDirSync :: "string \<Rightarrow> filesystem \<Rightarrow> error option \<times> filesystem" where
  "ensureDirSync p fs =
     (if list_ex (is_file fs) (prefixes (resolve fs p)) then (Some FsError, fs)
      else (None, fs\<lparr>dirs := fold List.insert (tl (prefixes (resolve fs p))) (dirs fs)\<rparr>))"

text \<open>
  \<^verbatim>\<open>fs.writeFileSync\<close>: a TypeError when the data is \<^verbatim>\<open>undefined\<close>; an error when the path
  is a directory or its parent is not one; else the file is created or overwritten.
\<close>

definition writeFileSync :: "string \<Rightarrow> string option \<Rightarrow> filesystem \<Rightarrow> error option \<times> filesystem" where
  "writeFileSync p data fs =
     (case data of
        None \<Rightarrow> (Some TypeError, fs)
      | Some d \<Rightarrow>
          if is_dir fs (resolve fs p) \<or> \<not> is_dir fs (butlast (resolve fs p))
          then (Some FsError, fs)
          else (None, fs\<lparr>files := AList.update (resolve fs p) d (files fs)\<rparr>))"

definition readFileSync :: "string \<Rightarrow> filesystem \<Rightarrow> error + string" where
  "readFileSync p fs =
     (case map_of (files fs) (resolve fs p) of
        None \<Rightarrow> Inl FsError
      | Some d \<Rightarrow> Inr d)"

section \<open>Collaborators\<close>

text \<open>
  What the module imports and this repository's sources do not hold is a parameter of
  the model:
  \<^item> \<open>filenamify\<close> is the package of that name called with \<^verbatim>\<open>{replacement: '-'}\<close>; it is
    given whatever value the caller has, which need not be a string, and returns a
    string or raises;
  \<^item> \<open>formatFileName\<close> is the function of \<^verbatim>\<open>utils/paths.js\<close>;
  \<^item> \<open>YAML_parse\<close> is \<^verbatim>\<open>YAML.parse\<close>;
  \<^item> \<open>fromSchema\<close> is the converter of \<^verbatim>\<open>utils/openapi-schema-to-json-schema-wrapper.js\<close>,
    called with the parsed document and the definition keywords. It is taken to return
    a tree of its own, which shares nothing with the parsed document.
\<close>

record collaborators =
  filenamify :: "json \<Rightarrow> error + string"
  formatFileName :: "string \<Rightarrow> string"
  YAML_parse :: "string \<Rightarrow> error + json"
  fromSchema :: "json \<Rightarrow> string list \<Rightarrow> error + json"

text \<open>\<^verbatim>\<open>_trimStart(s, '-')\<close> of lodash: every leading hyphen is removed.\<close>

definition trimStart :: "string \<Rightarrow> string" where
  "trimStart s = dropWhile (\<lambda>c. c = CHR ''-'') s"

definition getFilename :: "collaborators \<Rightarrow> json \<Rightarrow> error + string" where
  "getFilename env name =
     (case filenamify env name of
        Inl e \<Rightarrow> Inl e
      | Inr s \<Rightarrow> Inr (formatFileName env (trimStart s)))"

text \<open>
  \<^verbatim>\<open>_get(object, key)\<close> of lodash for a key without brackets: the key itself when it has
  no dot or is a property of the object, else its dot-separated segments, followed
  while the value is neither \<^verbatim>\<open>null\<close> nor \<^verbatim>\<open>undefined\<close>. Keys with brackets are outside the
  model.
\<close>

definition castPath :: "string \<Rightarrow> json \<Rightarrow> string list" where
  "castPath key object =
     (if CHR ''.'' \<notin> set key \<or> (case object of JObj kvs \<Rightarrow> has_own kvs key | _ \<Rightarrow> False)
      then [key] else split_on CHR ''.'' key)"

fun baseGet :: "string list \<Rightarrow> json \<Rightarrow> json" where
  "baseGet [] v = v"
| "baseGet (k # ks) v =
     (case js_get v k of
        Inl e \<Rightarrow> JUndef
      | Inr v' \<Rightarrow> baseGet ks v')"

definition lodash_get :: "json \<Rightarrow> string \<Rightarrow> json" where
  "lodash_get object key = baseGet (castPath key object) object"

text \<open>
  The tree after the value at a path was mutated into \<open>new\<close>: how the in-place changes
  of \<^verbatim>\<open>adaptSchema\<close> to the members of one collection show in the converted tree.
\<close>

fun set_path :: "string list \<Rightarrow> json \<Rightarrow> json \<Rightarrow> json" where
  "set_path [] new old = new"
| "set_path (k # ks) new old =
     (case old of
        JObj kvs \<Rightarrow>
          if has_own kvs k then JObj (obj_update k (set_path ks new (obj_get kvs k)) kvs)
          else old
      | JArr xs \<Rightarrow>
          if is_array_index k \<and> dec_val k < length xs
          then JArr (xs[dec_val k := set_path ks new (xs ! dec_val k)])
          else old
      | _ \<Rightarrow> old)"

section \<open>Writing one schema\<close>

text \<open>A loop whose body changes a state and may raise; the state at the raise is kept.\<close>

fun forEach :: "('a \<Rightarrow> 's \<Rightarrow> error option \<times> 's) \<Rightarrow> 'a list \<Rightarrow> 's \<Rightarrow> error option \<times> 's" where
  "forEach f [] s = (None, s)"
| "forEach f (x # xs) s =
     (case f x s of
        (Some e, s') \<Rightarrow> (Some e, s')
      | (None, s') \<Rightarrow> forEach f xs s')"

definition saveSchema ::
  "string \<Rightarrow> string \<Rightarrow> string \<Rightarrow> string option \<Rightarrow> filesystem \<Rightarrow> error option \<times> filesystem" where
  "saveSchema schemasPath definitionKeyword filename schemaAsString fs =
     (let destinationDir = path_join schemasPath definitionKeyword;
          destinationPath = path_join destinationDir (filename @ ''.json'')
      in case ensureDirSync destinationDir fs of
           (Some e, fs') \<Rightarrow> (Some e, fs')
         | (None, fs') \<Rightarrow> writeFileSync destinationPath schemaAsString fs')"

section \<open>Component extraction\<close>

text \<open>
  The body of the loop of \<^verbatim>\<open>processSchema\<close> up to the call of \<^verbatim>\<open>saveSchema\<close>: the file
  name, the adapted entry and the text to write. Calling \<^verbatim>\<open>match\<close> on \<^verbatim>\<open>undefined\<close>
  raises.
\<close>

definition processSchema_render ::
  "collaborators \<Rightarrow> bool \<Rightarrow> string \<times> json \<Rightarrow> error + string \<times> json \<times> string" where
  "processSchema_render env isArray entry =
     (case (if isArray then js_get (snd entry) ''name'' else Inr (JStr (fst entry))) of
        Inl e \<Rightarrow> Inl e
      | Inr name \<Rightarrow>
     (case getFilename env name of
        Inl e \<Rightarrow> Inl e
      | Inr filename \<Rightarrow>
     (case adaptSchema (snd entry) name filename of
        Inl e \<Rightarrow> Inl e
      | Inr adapted \<Rightarrow>
     (case JSON_stringify adapted of
        None \<Rightarrow> Inl TypeError
      | Some schemaAsString \<Rightarrow> Inr (filename, adapted, rewrite_refs schemaAsString)))))"

text \<open>The whole body, on the pair of the entries adapted so far and the file system.\<close>

fun processSchema_entry ::
  "collaborators \<Rightarrow> string \<Rightarrow> string \<Rightarrow> bool \<Rightarrow> string \<times> json
    \<Rightarrow> props \<times> filesystem \<Rightarrow> error option \<times> props \<times> filesystem" where
  "processSchema_entry env schemasPath definitionKeyword isArray entry (adaptedEntries, fs) =
     (case processSchema_render env isArray entry of
        Inl e \<Rightarrow> (Some e, adaptedEntries, fs)
      | Inr (filename, adapted, schemaAsString) \<Rightarrow>
          (case saveSchema schemasPath definitionKeyword filename (Some schemaAsString) fs of
             (Some e, fs') \<Rightarrow> (Some e, adaptedEntries, fs')
           | (None, fs') \<Rightarrow> (None, adaptedEntries @ [(fst entry, adapted)], fs')))"

declare processSchema_entry.simps [simp del]

text \<open>
  The collection with its members replaced by the adapted ones; after a raise the
  members not reached are as they were.
\<close>

definition with_entries :: "json \<Rightarrow> props \<Rightarrow> json" where
  "with_entries schema entries =
     (case schema of
        JObj kvs \<Rightarrow> JObj entries
      | JArr xs \<Rightarrow> JArr (map snd entries)
      | _ \<Rightarrow> schema)"

definition processSchema ::
  "collaborators \<Rightarrow> json \<Rightarrow> string \<Rightarrow> string \<Rightarrow> bool \<Rightarrow> filesystem
    \<Rightarrow> error option \<times> json \<times> filesystem" where
  "processSchema env schema schemasPath definitionKeyword isArray fs =
     (case object_entries schema of
        Inl e \<Rightarrow> (Some e, schema, fs)
      | Inr entries \<Rightarrow>
          (case forEach (processSchema_entry env schemasPath definitionKeyword isArray)
                  entries ([], fs) of
             (r, adapted, fs') \<Rightarrow>
               (r, with_entries schema (adapted @ drop (length adapted) entries), fs')))"

definition isArray :: "json \<Rightarrow> bool" where
  "isArray v = (case v of JArr xs \<Rightarrow> True | _ \<Rightarrow> False)"

text \<open>The body of the loop of \<^verbatim>\<open>processComponents\<close>, on the converted tree and the file system.\<close>

fun processComponents_key ::
  "collaborators \<Rightarrow> json \<Rightarrow> string \<Rightarrow> string \<Rightarrow> json \<times> filesystem
    \<Rightarrow> error option \<times> json \<times> filesystem" where
  "processComponents_key env parsedOpenAPIContent schemasPath key (generatedSchema, fs) =
     (case processSchema env (lodash_get generatedSchema key) schemasPath key
             (isArray (lodash_get parsedOpenAPIContent key)) fs of
        (r, schema', fs') \<Rightarrow>
          (r, set_path (castPath key generatedSchema) schema' generatedSchema, fs'))"

declare processComponents_key.simps [simp del]

definition processComponents ::
  "collaborators \<Rightarrow> string list \<Rightarrow> json \<Rightarrow> json \<Rightarrow> string \<Rightarrow> filesystem
    \<Rightarrow> error option \<times> json \<times> filesystem" where
  "processComponents env componentsKeywords generatedSchema parsedOpenAPIContent schemasPath fs =
     forEach (processComponents_key env parsedOpenAPIContent schemasPath)
       componentsKeywords (generatedSchema, fs)"

section \<open>Path extraction\<close>

definition processParameterSchema ::
  "json \<Rightarrow> string \<Rightarrow> string \<Rightarrow> string \<Rightarrow> filesystem \<Rightarrow> error option \<times> filesystem" where
  "processParameterSchema schema schemasPath definitionKeyword filename fs =
     (case js_get schema ''name'' of
        Inl e \<Rightarrow> (Some e, fs)
      | Inr name \<Rightarrow>
          (case adaptSchema schema name filename of
             Inl e \<Rightarrow> (Some e, fs)
           | Inr adapted \<Rightarrow>
               saveSchema schemasPath definitionKeyword filename (JSON_stringify adapted) fs))"

record buckets =
  query :: "json list"
  path :: "json list"

text \<open>The function given to \<^verbatim>\<open>reduce\<close> in \<^verbatim>\<open>processPathSchemas\<close>.\<close>

definition bucket_step :: "json \<Rightarrow> buckets \<Rightarrow> error + buckets" where
  "bucket_step parameter acc =
     (case js_get parameter ''in'' of
        Inl e \<Rightarrow> Inl e
      | Inr i \<Rightarrow>
          Inr ((if i = JStr ''query'' then (\<lambda>a. a\<lparr>path := path a @ [parameter]\<rparr>) else (\<lambda>a. a))
                 ((if i = JStr ''path'' then (\<lambda>a. a\<lparr>query := query a @ [parameter]\<rparr>) else (\<lambda>a. a))
                    acc)))"

text \<open>The body of the loop over the two buckets.\<close>

definition process_bucket ::
  "collaborators \<Rightarrow> string \<Rightarrow> string \<Rightarrow> string \<Rightarrow> string \<times> json list
    \<Rightarrow> filesystem \<Rightarrow> error option \<times> filesystem" where
  "process_bucket env schemasPath folder baseFilename entry fs =
     (if fst entry \<in> set EXTRACTION_PARAMETERS_KEYWORDS \<and> snd entry \<noteq> [] then
        (case buildSchemaFromParameters (snd entry) of
           Inl e \<Rightarrow> (Some e, fs)
         | Inr itemSchema \<Rightarrow>
             (case getFilename env
                     (JStr (baseFilename @ ''_'' @ fst entry @ ''_'' @ PARAMETERS_KEYWORD)) of
                Inl e \<Rightarrow> (Some e, fs)
              | Inr filename \<Rightarrow>
                  processParameterSchema itemSchema schemasPath folder filename fs))
      else (None, fs))"

text \<open>
  The body of the loop over the keys of one path entry. Only an array has the method
  \<^verbatim>\<open>reduce\<close>.
\<close>

definition process_option ::
  "collaborators \<Rightarrow> string \<Rightarrow> string \<Rightarrow> string \<Rightarrow> string \<times> json
    \<Rightarrow> filesystem \<Rightarrow> error option \<times> filesystem" where
  "process_option env schemasPath pathFolder baseFilename entry fs =
     (case (if fst entry \<in> set METHODS then js_in PARAMETERS_KEYWORD (snd entry) else Inr False) of
        Inl e \<Rightarrow> (Some e, fs)
      | Inr isValidMethod \<Rightarrow>
          if isValidMethod \<or> fst entry = PARAMETERS_KEYWORD then
            (case (if isValidMethod then js_get (snd entry) PARAMETERS_KEYWORD
                   else Inr (snd entry)) of
               Inl e \<Rightarrow> (Some e, fs)
             | Inr (JArr currentSchema) \<Rightarrow>
                 (case reduce bucket_step currentSchema \<lparr>query = [], path = []\<rparr> of
                    Inl e \<Rightarrow> (Some e, fs)
                  | Inr schemas \<Rightarrow>
                      forEach
                        (process_bucket env schemasPath
                           (if isValidMethod then path_join pathFolder (fst entry) else pathFolder)
                           baseFilename)
                        [(''query'', query schemas), (''path'', path schemas)] fs)
             | Inr _ \<Rightarrow> (Some TypeError, fs))
          else (None, fs))"

text \<open>The body of the loop over the path entries.\<close>

definition process_endpoint ::
  "collaborators \<Rightarrow> string \<Rightarrow> string \<times> json \<Rightarrow> filesystem \<Rightarrow> error option \<times> filesystem" where
  "process_endpoint env schemasPath entry fs =
     (let pathName = strip_invalid_uri_chars (fst entry);
          pathFolder = pathName;
          baseFilename = map (\<lambda>c. if c = CHR ''/'' then CHR ''_'' else c) pathName
      in case object_entries (snd entry) of
           Inl e \<Rightarrow> (Some e, fs)
         | Inr options \<Rightarrow>
             forEach (process_option env schemasPath pathFolder baseFilename) options fs)"

definition processPathSchemas ::
  "collaborators \<Rightarrow> json \<Rightarrow> string \<Rightarrow> filesystem \<Rightarrow> error option \<times> filesystem" where
  "processPathSchemas env generatedSchema schemasPath fs =
     (case object_entries (lodash_get generatedSchema ''paths'') of
        Inl e \<Rightarrow> (Some e, fs)
      | Inr pathSchema \<Rightarrow> forEach (process_endpoint env schemasPath) pathSchema fs)"

section \<open>The command\<close>

datatype log_entry =
    Error_could_not_find_the_OpenAPI_file
  | Warn_failed_to_convert_non_object_attribute
  | Info_generated_successfully

datatype outcome =
    Returned
  | Exited nat
  | Raised error

text \<open>\<^verbatim>\<open>[...new Set(xs)]\<close>: the first occurrence of each element, in order.\<close>

definition dedupe :: "'a list \<Rightarrow> 'a list" where
  "dedupe xs = rev (remdups (rev xs))"

definition componentsKeywords :: "string option \<Rightarrow> string list" where
  "componentsKeywords propertiesToExport =
     dedupe ((case propertiesToExport of None \<Rightarrow> [] | Some s \<Rightarrow> split_on CHR '','' s)
             @ [''components.schemas''])"

text \<open>The block guarded by \<^verbatim>\<open>try\<close> in \<^verbatim>\<open>runCommand\<close>.\<close>

definition try_block ::
  "collaborators \<Rightarrow> json \<Rightarrow> string list \<Rightarrow> string \<Rightarrow> filesystem \<Rightarrow> error option \<times> filesystem" where
  "try_block env parsedOpenAPIContent keywords schemasPath fs =
     (case fromSchema env parsedOpenAPIContent keywords of
        Inl e \<Rightarrow> (Some e, fs)
      | Inr generatedSchema \<Rightarrow>
          (case processComponents env keywords generatedSchema parsedOpenAPIContent
                  schemasPath fs of
             (Some e, generatedSchema', fs') \<Rightarrow> (Some e, fs')
           | (None, generatedSchema', fs') \<Rightarrow>
               processPathSchemas env generatedSchema' schemasPath fs'))"

text \<open>
  \<^verbatim>\<open>runCommand\<close>: how the call ends, what it logged and the file system it leaves. An
  error outside the two \<^verbatim>\<open>try\<close> blocks leaves the function as an exception.
\<close>

definition runCommand ::
  "collaborators \<Rightarrow> string \<Rightarrow> string \<Rightarrow> string option \<Rightarrow> filesystem
    \<Rightarrow> outcome \<times> log_entry list \<times> filesystem" where
  "runCommand env openApiPath schemasPath propertiesToExport fs =
     (case ensureDirSync schemasPath (removeSync schemasPath fs) of
        (Some e, fs1) \<Rightarrow> (Raised e, [], fs1)
      | (None, fs1) \<Rightarrow>
     (case readFileSync openApiPath fs1 of
        Inl e \<Rightarrow> (Exited 1, [Error_could_not_find_the_OpenAPI_file], fs1)
      | Inr openAPIContent \<Rightarrow>
     (case YAML_parse env openAPIContent of
        Inl e \<Rightarrow> (Raised e, [], fs1)
      | Inr parsedOpenAPIContent \<Rightarrow>
     (case try_block env parsedOpenAPIContent (componentsKeywords propertiesToExport)
             schemasPath fs1 of
        (Some e, fs2) \<Rightarrow> (Returned, [Warn_failed_to_convert_non_object_attribute], fs2)
      | (None, fs2) \<Rightarrow> (Returned, [Info_generated_successfully], fs2)))))"

section \<open>Notions used in the statements\<close>

subsection \<open>Adaptation\<close>



subsection \<open>Parameter objects\<close>

definition not_nullish :: "json \<Rightarrow> bool" where
  "not_nullish v = (v \<noteq> JUndef \<and> v \<noteq> JNull)"

text \<open>A field of a parameter, \<^verbatim>\<open>undefined\<close> when it has none.\<close>

definition parameter_field :: "json \<Rightarrow> string \<Rightarrow> json" where
  "parameter_field p k = (case js_get p k of Inl e \<Rightarrow> JUndef | Inr v \<Rightarrow> v)"

text \<open>The parameters that pass the guard \<^verbatim>\<open>if (!name) return\<close>.\<close>

definition named_parameters :: "json list \<Rightarrow> json list" where
  "named_parameters ps = filter (\<lambda>p. truthy (parameter_field p ''name'')) ps"

text \<open>The property a named parameter contributes: its name, and its schema wrapped.\<close>

definition property_of :: "json \<Rightarrow> string \<times> json" where
  "property_of p =
     (to_string (parameter_field p ''name''), JObj [(''schema'', parameter_field p ''schema'')])"

definition required_of :: "json list \<Rightarrow> json list" where
  "required_of ps =
     map (\<lambda>p. parameter_field p ''name'')
       (filter (\<lambda>p. truthy (parameter_field p ''required'')) (named_parameters ps))"

subsection \<open>Reference rewriting\<close>

text \<open>
  The rewriting as the specification words it: the text is read from left to right;
  where \<^verbatim>\<open>COMPONENT_REF_REGEXP\<close> matches, the match is replaced by its last segment and
  \<^verbatim>\<open>.json\<close> and reading goes on after the match; any other character is kept.
\<close>

function rewrite_refs_spec :: "string \<Rightarrow> string" where
  "rewrite_refs_spec [] = []"
| "rewrite_refs_spec (c # cs) =
     (case COMPONENT_REF_REGEXP_at (c # cs) of
        None \<Rightarrow> c # rewrite_refs_spec cs
      | Some (m, rest) \<Rightarrow> last_segment m @ ''.json'' @ rewrite_refs_spec rest)"
  by pat_completeness auto
termination
  by (relation "measure length") (auto dest: COMPONENT_REF_REGEXP_at_shorter)

text \<open>No matched reference has a dollar sign in its last segment.\<close>

definition dollar_free :: "string \<Rightarrow> bool" where
  "dollar_free s = list_all (\<lambda>m. CHR ''$'' \<notin> set (last_segment m)) (match_COMPONENT_REF s)"

text \<open>The regular expression matches at the start of \<open>t\<close>.\<close>

definition starts_ref :: "string \<Rightarrow> bool" where
  "starts_ref t = (COMPONENT_REF_REGEXP_at t \<noteq> None)"

text \<open>The regular expression matches nowhere in \<open>as @ t\<close> at a position inside \<open>as\<close>.\<close>

fun clean_before :: "string \<Rightarrow> string \<Rightarrow> bool" where
  "clean_before [] t = True"
| "clean_before (a # as) t = (\<not> starts_ref (a # as @ t) \<and> clean_before as t)"

text \<open>Two documents for the examples.\<close>

definition pet_document :: json where
  "pet_document =
     JObj [(''owner'', JObj [(''$ref'', JStr ''#/components/schemas/Person'')]),
           (''vet'', JObj [(''$ref'', JStr ''#/components/schemas/Person'')]),
           (''missing'', JObj [(''$ref'', JStr ''#/components/responses/NotFound'')]),
           (''legacy'', JObj [(''$ref'', JStr ''#/definitions/Old'')])]"

definition pet_document_rewritten :: json where
  "pet_document_rewritten =
     JObj [(''owner'', JObj [(''$ref'', JStr ''Person.json'')]),
           (''vet'', JObj [(''$ref'', JStr ''Person.json'')]),
           (''missing'', JObj [(''$ref'', JStr ''NotFound.json'')]),
           (''legacy'', JObj [(''$ref'', JStr ''#/definitions/Old'')])]"

subsection \<open>Examples\<close>

text \<open>
  Collaborators for the examples. The names in the examples are safe file names as
  they are, and both sanitizers return them unchanged; \<open>filenamify\<close> raises on a value
  that is not a string, as the package does. The document is handed over parsed, and
  the converter returns it as it is.
\<close>

definition example_collaborators :: "json \<Rightarrow> collaborators" where
  "example_collaborators document =
     \<lparr>filenamify = (\<lambda>name. case name of JStr s \<Rightarrow> Inr s | _ \<Rightarrow> Inl TypeError),
      formatFileName = (\<lambda>s. s),
      YAML_parse = (\<lambda>text. Inr document),
      fromSchema = (\<lambda>parsed keywords. Inr parsed)\<rparr>"

definition id_parameter :: json where
  "id_parameter =
     JObj [(''name'', JStr ''id''), (''in'', JStr ''path''), (''required'', JBool True),
           (''schema'', JObj [(''type'', JStr ''string'')])]"

definition verbose_parameter :: json where
  "verbose_parameter =
     JObj [(''name'', JStr ''verbose''), (''in'', JStr ''query''),
           (''schema'', JObj [(''type'', JStr ''boolean'')])]"

subsection \<open>Directories\<close>

text \<open>Nothing lies below the directory \<open>d\<close>: no file at or below it, no directory below it.\<close>

definition dir_empty :: "filesystem \<Rightarrow> string list \<Rightarrow> bool" where
  "dir_empty fs d =
     (list_all (\<lambda>f. \<not> prefix d (fst f)) (files fs)
      \<and> list_all (\<lambda>q. \<not> strict_prefix d q) (dirs fs))"

subsection \<open>Parameter buckets\<close>

text \<open>
  What is written for a list of parameters under a given name: nothing for the empty
  list, else the synthetic schema of the list, through \<^verbatim>\<open>processParameterSchema\<close>.
\<close>

definition emit_parameter_schema ::
  "collaborators \<Rightarrow> string \<Rightarrow> string \<Rightarrow> string \<Rightarrow> json list \<Rightarrow> filesystem
    \<Rightarrow> error option \<times> filesystem" where
  "emit_parameter_schema env schemasPath folder name parameters fs =
     (if parameters = [] then (None, fs)
      else case buildSchemaFromParameters parameters of
             Inl e \<Rightarrow> (Some e, fs)
           | Inr itemSchema \<Rightarrow>
               (case getFilename env (JStr name) of
                  Inl e \<Rightarrow> (Some e, fs)
                | Inr filename \<Rightarrow>
                    processParameterSchema itemSchema schemasPath folder filename fs))"

text \<open>
  The routing claimed of the extractor: the parameters that are \<^verbatim>\<open>in: "path"\<close> go out
  under the name ending in \<^verbatim>\<open>_query_parameters\<close>, then those that are \<^verbatim>\<open>in: "query"\<close>
  under the name ending in \<^verbatim>\<open>_path_parameters\<close>.
\<close>

definition emit_inverted_buckets ::
  "collaborators \<Rightarrow> string \<Rightarrow> string \<Rightarrow> string \<Rightarrow> json list \<Rightarrow> filesystem
    \<Rightarrow> error option \<times> filesystem" where
  "emit_inverted_buckets env schemasPath folder baseFilename parameters fs =
     (case emit_parameter_schema env schemasPath folder (baseFilename @ ''_query_parameters'')
             (filter (\<lambda>p. parameter_field p ''in'' = JStr ''path'') parameters) fs of
        (Some e, fs') \<Rightarrow> (Some e, fs')
      | (None, fs') \<Rightarrow>
          emit_parameter_schema env schemasPath folder (baseFilename @ ''_path_parameters'')
            (filter (\<lambda>p. parameter_field p ''in'' = JStr ''query'') parameters) fs')"

subsection \<open>The disk at a raise\<close>

text \<open>
  For a loop that raises: the item at which it raises and the state in which that item
  was started, after the items before it were run to their end; \<open>inner\<close> then says
  where inside the item the raise is. \<open>None\<close> when the loop does not raise.
\<close>

fun raise_point ::
  "('a \<Rightarrow> 's \<Rightarrow> error option \<times> 's) \<Rightarrow> ('a \<Rightarrow> 's \<Rightarrow> 'd option) \<Rightarrow> 'a list \<Rightarrow> 's \<Rightarrow> 'd option" where
  "raise_point f inner [] s = None"
| "raise_point f inner (x # xs) s =
     (case f x s of
        (Some e, s') \<Rightarrow> inner x s
      | (None, s') \<Rightarrow> raise_point f inner xs s')"

text \<open>
  Component extraction: a collection that cannot be enumerated raises before anything is
  written for it; else the raise is at one entry, on the disk the entries before it left.
\<close>

definition processSchema_raise ::
  "collaborators \<Rightarrow> json \<Rightarrow> string \<Rightarrow> string \<Rightarrow> bool \<Rightarrow> filesystem \<Rightarrow> filesystem option" where
  "processSchema_raise env schema schemasPath definitionKeyword isArr fs =
     (case object_entries schema of
        Inl e \<Rightarrow> Some fs
      | Inr entries \<Rightarrow>
          raise_point (processSchema_entry env schemasPath definitionKeyword isArr)
            (\<lambda>entry st. Some (snd st)) entries ([], fs))"

definition processComponents_raise ::
  "collaborators \<Rightarrow> string list \<Rightarrow> json \<Rightarrow> json \<Rightarrow> string \<Rightarrow> filesystem \<Rightarrow> filesystem option" where
  "processComponents_raise env keywords generatedSchema parsedOpenAPIContent schemasPath fs =
     raise_point (processComponents_key env parsedOpenAPIContent schemasPath)
       (\<lambda>key st. processSchema_raise env (lodash_get (fst st) key) schemasPath key
                    (isArray (lodash_get parsedOpenAPIContent key)) (snd st))
       keywords (generatedSchema, fs)"

text \<open>
  Path extraction. What \<^verbatim>\<open>processPathSchemas\<close> computes for one key of a path entry
  before it writes: nothing for a key that is skipped, else the folder and the two
  buckets it loops over.
\<close>

definition option_buckets ::
  "string \<Rightarrow> string \<times> json \<Rightarrow> error + (string \<times> (string \<times> json list) list) option" where
  "option_buckets pathFolder entry =
     (case (if fst entry \<in> set METHODS then js_in PARAMETERS_KEYWORD (snd entry) else Inr False) of
        Inl e \<Rightarrow> Inl e
      | Inr isValidMethod \<Rightarrow>
          if isValidMethod \<or> fst entry = PARAMETERS_KEYWORD then
            (case (if isValidMethod then js_get (snd entry) PARAMETERS_KEYWORD
                   else Inr (snd entry)) of
               Inl e \<Rightarrow> Inl e
             | Inr (JArr currentSchema) \<Rightarrow>
                 (case reduce bucket_step currentSchema \<lparr>query = [], path = []\<rparr> of
                    Inl e \<Rightarrow> Inl e
                  | Inr schemas \<Rightarrow>
                      Inr (Some (if isValidMethod then path_join pathFolder (fst entry)
                                 else pathFolder,
                                 [(''query'', query schemas), (''path'', path schemas)])))
             | Inr _ \<Rightarrow> Inl TypeError)
          else Inr None)"

definition process_option_raise ::
  "collaborators \<Rightarrow> string \<Rightarrow> string \<Rightarrow> string \<Rightarrow> string \<times> json \<Rightarrow> filesystem
    \<Rightarrow> filesystem option" where
  "process_option_raise env schemasPath pathFolder baseFilename entry fs =
     (case option_buckets pathFolder entry of
        Inl e \<Rightarrow> Some fs
      | Inr None \<Rightarrow> None
      | Inr (Some (folder, schemas)) \<Rightarrow>
          raise_point (process_bucket env schemasPath folder baseFilename)
            (\<lambda>bucket fs'. Some fs') schemas fs)"

definition process_endpoint_raise ::
  "collaborators \<Rightarrow> string \<Rightarrow> string \<times> json \<Rightarrow> filesystem \<Rightarrow> filesystem option" where
  "process_endpoint_raise env schemasPath entry fs =
     (let pathName = strip_invalid_uri_chars (fst entry);
          pathFolder = pathName;
          baseFilename = map (\<lambda>c. if c = CHR ''/'' then CHR ''_'' else c) pathName
      in case object_entries (snd entry) of
           Inl e \<Rightarrow> Some fs
         | Inr options \<Rightarrow>
             raise_point (process_option env schemasPath pathFolder baseFilename)
               (process_option_raise env schemasPath pathFolder baseFilename) options fs)"

definition processPathSchemas_raise ::
  "collaborators \<Rightarrow> json \<Rightarrow> string \<Rightarrow> filesystem \<Rightarrow> filesystem option" where
  "processPathSchemas_raise env generatedSchema schemasPath fs =
     (case object_entries (lodash_get generatedSchema ''paths'') of
        Inl e \<Rightarrow> Some fs
      | Inr pathSchema \<Rightarrow>
          raise_point (process_endpoint env schemasPath) (process_endpoint_raise env schemasPath)
            pathSchema fs)"

text \<open>
  The disk in which the step that raised in the guarded block was started: the disk
  given when the conversion raises, else the one of the component that raises, else the
  one of the parameter list that raises, the components having all been written.
\<close>

definition try_block_raise ::
  "collaborators \<Rightarrow> json \<Rightarrow> string list \<Rightarrow> string \<Rightarrow> filesystem \<Rightarrow> filesystem option" where
  "try_block_raise env parsedOpenAPIContent keywords schemasPath fs =
     (case fromSchema env parsedOpenAPIContent keywords of
        Inl e \<Rightarrow> Some fs
      | Inr generatedSchema \<Rightarrow>
          (case processComponents env keywords generatedSchema parsedOpenAPIContent
                  schemasPath fs of
             (Some e, generatedSchema', fs') \<Rightarrow>
               processComponents_raise env keywords generatedSchema parsedOpenAPIContent
                 schemasPath fs
           | (None, generatedSchema', fs') \<Rightarrow>
               processPathSchemas_raise env generatedSchema' schemasPath fs'))"

subsection \<open>Example documents and disks\<close>

text \<open>
  A working directory with the input document and an output directory left by an
  earlier run, and the same after the output directory was reset.
\<close>

definition work_disk :: filesystem where
  "work_disk =
     \<lparr>cwd = [''work''],
      files = [([''work'', ''api.yaml''], ''openapi: 3.0.0''),
               ([''work'', ''out'', ''old.json''], ''{}'')],
      dirs = [[''work'', ''out''], [''work'']]\<rparr>"

definition reset_disk :: filesystem where
  "reset_disk =
     \<lparr>cwd = [''work''],
      files = [([''work'', ''api.yaml''], ''openapi: 3.0.0'')],
      dirs = [[''work'', ''out''], [''work'']]\<rparr>"

text \<open>The operation \<^verbatim>\<open>get /widgets/{id}\<close> of the specification, and what it leaves on disk.\<close>

definition widgets_document :: json where
  "widgets_document =
     JObj [(''paths'', JObj [(''/widgets/{id}'',
              JObj [(''get'', JObj [(''parameters'',
                       JArr [id_parameter, verbose_parameter])])])])]"

definition widgets_query_schema :: json where
  "widgets_query_schema =
     JObj [(''type'', JStr ''object''),
           (''properties'',
              JObj [(''id'', JObj [(''schema'', JObj [(''type'', JStr ''string'')])])]),
           (''required'', JArr [JStr ''id'']),
           (''additionalProperties'', JBool False),
           (''title'', JUndef),
           (''$id'', JStr ''_widgets_id_query_parameters.json'')]"

definition widgets_path_schema :: json where
  "widgets_path_schema =
     JObj [(''type'', JStr ''object''),
           (''properties'',
              JObj [(''verbose'', JObj [(''schema'', JObj [(''type'', JStr ''boolean'')])])]),
           (''required'', JArr []),
           (''additionalProperties'', JBool False),
           (''title'', JUndef),
           (''$id'', JStr ''_widgets_id_path_parameters.json'')]"

definition widgets_disk :: filesystem where
  "widgets_disk =
     \<lparr>cwd = [''work''],
      files = [([''work'', ''api.yaml''], ''openapi: 3.0.0''),
               ([''work'', ''out'', ''widgets'', ''id'', ''get'',
                 ''_widgets_id_query_parameters.json''],
                serialize 0 widgets_query_schema),
               ([''work'', ''out'', ''widgets'', ''id'', ''get'',
                 ''_widgets_id_path_parameters.json''],
                serialize 0 widgets_path_schema)],
      dirs = [[''work'', ''out'', ''widgets'', ''id'', ''get''],
              [''work'', ''out'', ''widgets'', ''id''],
              [''work'', ''out'', ''widgets''],
              [''work'', ''out''], [''work'']]\<rparr>"

text \<open>
  A document whose second schema is \<^verbatim>\<open>null\<close> (a key with no value in YAML), and the
  disk when extraction stops.
\<close>

definition malformed_document :: json where
  "malformed_document =
     JObj [(''components'', JObj [(''schemas'',
              JObj [(''A'', JObj [(''type'', JStr ''string'')]),
                    (''Foo'', JNull),
                    (''B'', JObj [(''type'', JStr ''number'')])])]),
           (''paths'', JObj [])]"

definition disk_after_A :: filesystem where
  "disk_after_A =
     \<lparr>cwd = [''work''],
      files = [([''work'', ''api.yaml''], ''openapi: 3.0.0''),
               ([''work'', ''out'', ''components.schemas'', ''A.json''],
                rewrite_refs
                  (serialize 0 (JObj [(''type'', JStr ''string''), (''title'', JStr ''A''),
                                      (''$id'', JStr ''A.json'')])))],
      dirs = [[''work'', ''out'', ''components.schemas''], [''work'', ''out''], [''work'']]\<rparr>"

text \<open>A collection that is an array: three examples, the second without a name.\<close>

definition first_example :: json where
  "first_example = JObj [(''name'', JStr ''First''), (''value'', JNum 1)]"

definition nameless_example :: json where
  "nameless_example = JObj [(''value'', JNum 2)]"

definition third_example :: json where
  "third_example = JObj [(''name'', JStr ''Third''), (''value'', JNum 3)]"

definition first_example_adapted :: json where
  "first_example_adapted =
     JObj [(''name'', JStr ''First''), (''value'', JNum 1), (''title'', JStr ''First''),
           (''$id'', JStr ''First.json'')]"

definition disk_after_First :: filesystem where
  "disk_after_First =
     \<lparr>cwd = [''work''],
      files = [([''work'', ''api.yaml''], ''openapi: 3.0.0''),
               ([''work'', ''out'', ''components.examples'', ''First.json''],
                rewrite_refs (serialize 0 first_example_adapted))],
      dirs = [[''work'', ''out'', ''components.examples''], [''work'', ''out''], [''work'']]\<rparr>"

text \<open>The schema \<^verbatim>\<open>Pet\<close> with its references, adapted, and the disk that holds it.\<close>

definition pet_adapted :: json where
  "pet_adapted =
     JObj [(''owner'', JObj [(''$ref'', JStr ''#/components/schemas/Person'')]),
           (''vet'', JObj [(''$ref'', JStr ''#/components/schemas/Person'')]),
           (''missing'', JObj [(''$ref'', JStr ''#/components/responses/NotFound'')]),
           (''legacy'', JObj [(''$ref'', JStr ''#/definitions/Old'')]),
           (''title'', JStr ''Pet''), (''$id'', JStr ''Pet.json'')]"

definition disk_after_Pet :: filesystem where
  "disk_after_Pet =
     \<lparr>cwd = [''work''],
      files = [([''work'', ''api.yaml''], ''openapi: 3.0.0''),
               ([''work'', ''out'', ''components.schemas'', ''Pet.json''],
                rewrite_refs (serialize 0 pet_adapted))],
      dirs = [[''work'', ''out'', ''components.schemas''], [''work'', ''out''], [''work'']]\<rparr>"

text \<open>
  A schema \<^verbatim>\<open>Pair\<close> one property of which refers to another property of the same schema,
  the schema as adapted, the document that is written for it, and the disk.
\<close>

definition pair_schema :: json where
  "pair_schema =
     JObj [(''properties'',
              JObj [(''x'', JObj [(''type'', JStr ''string'')]),
                    (''y'', JObj [(''$ref'', JStr ''#/components/schemas/Pair/properties/x'')])])]"

definition pair_adapted :: json where
  "pair_adapted =
     JObj [(''properties'',
              JObj [(''x'', JObj [(''type'', JStr ''string'')]),
                    (''y'', JObj [(''$ref'', JStr ''#/components/schemas/Pair/properties/x'')])]),
           (''title'', JStr ''Pair''), (''$id'', JStr ''Pair.json'')]"

definition pair_written :: json where
  "pair_written =
     JObj [(''properties'',
              JObj [(''x'', JObj [(''type'', JStr ''string'')]),
                    (''y'', JObj [(''$ref'', JStr ''x.json'')])]),
           (''title'', JStr ''Pair''), (''$id'', JStr ''Pair.json'')]"

definition disk_after_Pair :: filesystem where
  "disk_after_Pair =
     \<lparr>cwd = [''work''],
      files = [([''work'', ''api.yaml''], ''openapi: 3.0.0''),
               ([''work'', ''out'', ''components.schemas'', ''Pair.json''],
                serialize 0 pair_written)],
      dirs = [[''work'', ''out'', ''components.schemas''], [''work'', ''out''], [''work'']]\<rparr>"

section \<open>Own properties: lookup and frame\<close>

lemmas obj_defs = obj_set_def obj_delete_def obj_get_def has_own_def is_array_index_def
  is_digit_def strip_invalid_uri_chars_def uri_char_def squote_def format_includes_date_def

lemmas param_defs = id_parameter_def verbose_parameter_def not_nullish_def parameter_field_def
  js_get_def truthy_def named_parameters_def property_of_def required_of_def obj_get_def

lemmas fs_defs = resolve_def removeSync_def ensureDirSync_def writeFileSync_def readFileSync_def
  is_file_def is_dir_def saveSchema_def path_join_def path_normalize_def List.insert_def
  dir_empty_def

lemmas run_defs = runCommand_def try_block_def componentsKeywords_def dedupe_def
  processComponents_def processComponents_key.simps processSchema_def processSchema_entry.simps
  processSchema_render_def getFilename_def trimStart_def example_collaborators_def
  object_entries_def with_entries_def lodash_get_def castPath_def isArray_def js_get_def
  js_in_def

lemmas path_defs = processPathSchemas_def process_endpoint_def process_option_def
  process_bucket_def processParameterSchema_def bucket_step_def METHODS_def
  PARAMETERS_KEYWORD_def EXTRACTION_PARAMETERS_KEYWORDS_def buildSchemaFromParameters_def
  add_parameter.simps truthy_def

lemma map_of_obj_update:
  "map_of (obj_update k v kvs) k' = (if k' = k \<and> has_own kvs k then Some v else map_of kvs k')"
  by (induction kvs) (auto simp: has_own_def)

lemma map_of_insert_index:
  "\<not> has_own kvs k \<Longrightarrow>
   map_of (insert_index k v kvs) k' = (if k' = k then Some v else map_of kvs k')"
  by (induction kvs) (auto simp: has_own_def split: if_splits)

lemma map_of_obj_set:
  "k \<noteq> ''__proto__'' \<Longrightarrow>
   map_of (obj_set k v kvs) k' = (if k' = k then Some v else map_of kvs k')"
  by (auto simp: obj_set_def map_of_obj_update map_of_insert_index has_own_def map_add_def
      split: option.splits)

lemma map_of_obj_set_proto:
  "\<not> has_own kvs ''__proto__'' \<Longrightarrow>
   map_of (obj_set k v kvs) k' =
     (if k' = k \<and> k \<noteq> ''__proto__'' then Some v else map_of kvs k')"
  by (cases "k = ''__proto__''") (auto simp: map_of_obj_set, simp add: obj_set_def)

lemma map_of_obj_delete:
  "map_of (obj_delete k kvs) k' = (if k' = k then None else map_of kvs k')"
  by (induction kvs) (auto simp: obj_delete_def)





section \<open>Adaptation of one schema\<close>

lemma adaptSchema_Inr_cases:
  assumes "adaptSchema schema name filename = Inr adapted"
  obtains (obj) kvs b where "schema = JObj kvs"
      "format_includes_date
         (obj_get (obj_set ''$id'' (JStr (strip_invalid_uri_chars filename @ ''.json''))
            (obj_set ''title'' name (obj_delete ''$schema'' kvs))) ''format'') = Inr b"
      "adapted = JObj ((if b then obj_set ''tsType'' (JStr ''Date'') else (\<lambda>x. x))
            (obj_set ''$id'' (JStr (strip_invalid_uri_chars filename @ ''.json''))
              (obj_set ''title'' name (obj_delete ''$schema'' kvs))))"
  | (arr) xs where "schema = JArr xs" "adapted = JArr xs"
  using assms by (cases schema) (auto simp: Let_def split: sum.splits if_splits)

text \<open>
  Claim C5, as amended. Adapting a schema object under the name \<open>name\<close> and the file
  name \<open>filename\<close> yields an object without the key \<^verbatim>\<open>$schema\<close>, whose \<^verbatim>\<open>title\<close> is the name
  (not the sanitized file name) and whose \<^verbatim>\<open>$id\<close> is the file name without the
  characters that are invalid in a URI, followed by \<^verbatim>\<open>.json\<close>. Its \<^verbatim>\<open>tsType\<close> is \<^verbatim>\<open>Date\<close> when
  \<^verbatim>\<open>format?.includes('date')\<close> holds of the entry; otherwise \<^verbatim>\<open>tsType\<close> is what the entry
  had before: absent if it was absent, and kept if the entry carried one.
\<close>

theorem adaptSchema_adapted:
  assumes "adaptSchema (JObj kvs) name filename = Inr adapted"
  shows "\<exists>kvs'. adapted = JObj kvs'
           \<and> \<not> has_own kvs' ''$schema''
           \<and> map_of kvs' ''title'' = Some name
           \<and> map_of kvs' ''$id'' = Some (JStr (strip_invalid_uri_chars filename @ ''.json''))
           \<and> map_of kvs' ''tsType'' =
               (if format_includes_date (obj_get kvs ''format'') = Inr True
                then Some (JStr ''Date'') else map_of kvs ''tsType'')"
  using assms
proof (cases rule: adaptSchema_Inr_cases)
  case (obj kvs0 b)
  then show ?thesis
    by (auto simp: map_of_obj_set map_of_obj_delete has_own_def obj_get_def)
next
  case (arr xs)
  then show ?thesis by simp
qed

text \<open>
  A date-time schema named \<^verbatim>\<open>Time Stamp\<close>: the title keeps the space, the \<^verbatim>\<open>$id\<close> loses it.
\<close>

theorem adaptSchema_adapted_witness:
  "adaptSchema
     (JObj [(''$schema'', JStr ''http://json-schema.org/draft-04/schema#''),
            (''type'', JStr ''string''), (''format'', JStr ''date-time'')])
     (JStr ''Time Stamp'') ''Time Stamp''
   = Inr (JObj [(''type'', JStr ''string''), (''format'', JStr ''date-time''),
                (''title'', JStr ''Time Stamp''), (''$id'', JStr ''TimeStamp.json''),
                (''tsType'', JStr ''Date'')])
   \<and> (\<exists>kvs'. JObj [(''type'', JStr ''string''), (''format'', JStr ''date-time''),
                (''title'', JStr ''Time Stamp''), (''$id'', JStr ''TimeStamp.json''),
                (''tsType'', JStr ''Date'')] = JObj kvs'
           \<and> \<not> has_own kvs' ''$schema''
           \<and> map_of kvs' ''title'' = Some (JStr ''Time Stamp'')
           \<and> map_of kvs' ''$id'' = Some (JStr ''TimeStamp.json'')
           \<and> map_of kvs' ''tsType'' = Some (JStr ''Date''))"
proof -
  have h: "adaptSchema
     (JObj [(''$schema'', JStr ''http://json-schema.org/draft-04/schema#''),
            (''type'', JStr ''string''), (''format'', JStr ''date-time'')])
     (JStr ''Time Stamp'') ''Time Stamp''
   = Inr (JObj [(''type'', JStr ''string''), (''format'', JStr ''date-time''),
                (''title'', JStr ''Time Stamp''), (''$id'', JStr ''TimeStamp.json''),
                (''tsType'', JStr ''Date'')])"
    by (simp add: obj_defs)
  from adaptSchema_adapted[OF h] h show ?thesis
    by (simp add: obj_defs)
qed

text \<open>
  Claim C5 as it is stated fails: an entry of format \<^verbatim>\<open>uuid\<close> that carries
  \<^verbatim>\<open>tsType: "Date"\<close> keeps it, although its format does not contain \<^verbatim>\<open>date\<close>.
\<close>

theorem adaptSchema_tsType_counterexample:
  "adaptSchema
     (JObj [(''type'', JStr ''string''), (''format'', JStr ''uuid''), (''tsType'', JStr ''Date'')])
     (JStr ''Id'') ''Id''
   = Inr (JObj [(''type'', JStr ''string''), (''format'', JStr ''uuid''),
                (''tsType'', JStr ''Date''), (''title'', JStr ''Id''), (''$id'', JStr ''Id.json'')])
   \<and> \<not> str_includes ''uuid'' ''date''"
  by (simp add: obj_defs)



section \<open>Synthetic parameter schemas\<close>

lemma js_get_not_nullish:
  "not_nullish p \<Longrightarrow> js_get p k = Inr (parameter_field p k)"
  by (cases p) (auto simp: not_nullish_def js_get_def parameter_field_def)

lemma add_parameter_not_nullish:
  assumes "not_nullish p"
  shows "add_parameter p (props, req) =
           Inr (if truthy (parameter_field p ''name'')
                then (obj_set (fst (property_of p)) (snd (property_of p)) props,
                      if truthy (parameter_field p ''required'')
                      then req @ [parameter_field p ''name''] else req)
                else (props, req))"
  by (simp add: add_parameter.simps js_get_not_nullish[OF assms] property_of_def)

lemma named_parameters_Cons:
  "named_parameters (p # ps) =
     (if truthy (parameter_field p ''name'') then p # named_parameters ps
      else named_parameters ps)"
  by (simp add: named_parameters_def)

lemma required_of_Cons:
  "required_of (p # ps) =
     (if truthy (parameter_field p ''name'') \<and> truthy (parameter_field p ''required'')
      then parameter_field p ''name'' # required_of ps else required_of ps)"
  by (simp add: required_of_def named_parameters_def)

lemma reduce_add_parameter:
  assumes "list_all not_nullish ps" "\<not> has_own props0 ''__proto__''"
  shows "\<exists>props. reduce add_parameter ps (props0, req0) = Inr (props, req0 @ required_of ps)
           \<and> (\<forall>k. map_of props k =
                 (if k = ''__proto__'' then None
                  else case map_of (rev (map property_of (named_parameters ps))) k of
                         Some v \<Rightarrow> Some v
                       | None \<Rightarrow> map_of props0 k))"
  using assms
proof (induction ps arbitrary: props0 req0)
  case Nil
  then show ?case by (auto simp: required_of_def named_parameters_def has_own_def)
next
  case (Cons p ps)
  from Cons.prems have nn: "not_nullish p" and rest: "list_all not_nullish ps" by simp_all
  show ?case
  proof (cases "truthy (parameter_field p ''name'')")
    case False
    then have e1: "named_parameters (p # ps) = named_parameters ps"
      and e2: "required_of (p # ps) = required_of ps"
      by (simp_all add: named_parameters_Cons required_of_Cons)
    have step: "reduce add_parameter (p # ps) (props0, req0)
                = reduce add_parameter ps (props0, req0)"
      using False nn by (simp add: add_parameter_not_nullish)
    show ?thesis
      unfolding e1 e2 step by (rule Cons.IH[OF rest Cons.prems(2)])
  next
    case True
    define props1 where "props1 = obj_set (fst (property_of p)) (snd (property_of p)) props0"
    define req1 where
      "req1 = (if truthy (parameter_field p ''required'')
               then req0 @ [parameter_field p ''name''] else req0)"
    have m1: "map_of props1 k =
         (if k = fst (property_of p) \<and> fst (property_of p) \<noteq> ''__proto__''
          then Some (snd (property_of p)) else map_of props0 k)" for k
      unfolding props1_def by (rule map_of_obj_set_proto[OF Cons.prems(2)])
    then have np: "\<not> has_own props1 ''__proto__''"
      using Cons.prems(2) by (auto simp: has_own_def)
    from Cons.IH[OF rest np, of req1] obtain props where
      r: "reduce add_parameter ps (props1, req1) = Inr (props, req1 @ required_of ps)"
      and m: "\<And>k. map_of props k =
                 (if k = ''__proto__'' then None
                  else case map_of (rev (map property_of (named_parameters ps))) k of
                         Some v \<Rightarrow> Some v
                       | None \<Rightarrow> map_of props1 k)"
      by blast
    have step: "add_parameter p (props0, req0) = Inr (props1, req1)"
      using True nn by (simp add: add_parameter_not_nullish props1_def req1_def)
    have req: "req1 @ required_of ps = req0 @ required_of (p # ps)"
      using True by (simp add: req1_def required_of_Cons)
    have "map_of props k =
            (if k = ''__proto__'' then None
             else case map_of (rev (map property_of (named_parameters (p # ps)))) k of
                    Some v \<Rightarrow> Some v
                  | None \<Rightarrow> map_of props0 k)" for k
      using True
      by (cases "property_of p")
         (auto simp: m m1 named_parameters_Cons map_add_def split: option.splits)
    with r step req show ?thesis by auto
  qed
qed

text \<open>
  Claim C6, as amended. From a list of parameter objects \<^verbatim>\<open>buildSchemaFromParameters\<close>
  builds an \<^verbatim>\<open>object\<close>-typed schema with \<^verbatim>\<open>additionalProperties: false\<close>. Its \<^verbatim>\<open>required\<close>
  array lists, in order, the names of the parameters that have a name and a true
  \<^verbatim>\<open>required\<close>. Its \<^verbatim>\<open>properties\<close> has one member for each name of a named parameter, and no
  other member; the member is not the parameter's \<^verbatim>\<open>schema\<close> but an object whose only key,
  \<^verbatim>\<open>schema\<close>, holds it (of two parameters of one name the later one counts; the name
  \<^verbatim>\<open>__proto__\<close> yields no member).
\<close>

theorem buildSchemaFromParameters_result:
  assumes "list_all not_nullish parameters"
  shows "\<exists>properties.
           buildSchemaFromParameters parameters =
             Inr (JObj [(''type'', JStr ''object''),
                        (''properties'', JObj properties),
                        (''required'', JArr (required_of parameters)),
                        (''additionalProperties'', JBool False)])
           \<and> (\<forall>k. map_of properties k =
                 (if k = ''__proto__'' then None
                  else map_of (rev (map property_of (named_parameters parameters))) k))"
proof -
  from reduce_add_parameter[OF assms, of "[]" "[]"] obtain props where
    r: "reduce add_parameter parameters ([], []) = Inr (props, required_of parameters)"
    and m: "\<And>k. map_of props k =
                 (if k = ''__proto__'' then None
                  else case map_of (rev (map property_of (named_parameters parameters))) k of
                         Some v \<Rightarrow> Some v
                       | None \<Rightarrow> map_of [] k)"
    by (auto simp: has_own_def)
  have "map_of props k =
          (if k = ''__proto__'' then None
           else map_of (rev (map property_of (named_parameters parameters))) k)" for k
    by (simp add: m split: option.splits)
  with r show ?thesis by (auto simp: buildSchemaFromParameters_def)
qed

text \<open>The two parameters of the operation \<^verbatim>\<open>get /widgets/{id}\<close>.\<close>

theorem buildSchemaFromParameters_result_witness:
  "list_all not_nullish [id_parameter, verbose_parameter]
   \<and> (\<exists>properties.
           buildSchemaFromParameters [id_parameter, verbose_parameter] =
             Inr (JObj [(''type'', JStr ''object''),
                        (''properties'', JObj properties),
                        (''required'', JArr [JStr ''id'']),
                        (''additionalProperties'', JBool False)])
           \<and> map_of properties ''id'' = Some (JObj [(''schema'', JObj [(''type'', JStr ''string'')])])
           \<and> map_of properties ''verbose'' = Some (JObj [(''schema'', JObj [(''type'', JStr ''boolean'')])])
           \<and> map_of properties ''other'' = None)"
proof -
  have h: "list_all not_nullish [id_parameter, verbose_parameter]"
    by (simp add: param_defs)
  from buildSchemaFromParameters_result[OF h] obtain properties where
    b: "buildSchemaFromParameters [id_parameter, verbose_parameter] =
             Inr (JObj [(''type'', JStr ''object''),
                        (''properties'', JObj properties),
                        (''required'', JArr (required_of [id_parameter, verbose_parameter])),
                        (''additionalProperties'', JBool False)])"
    and m: "\<And>k. map_of properties k =
                 (if k = ''__proto__'' then None
                  else map_of (rev (map property_of
                         (named_parameters [id_parameter, verbose_parameter]))) k)"
    by blast
  have r: "required_of [id_parameter, verbose_parameter] = [JStr ''id'']"
    by (simp add: param_defs)
  have "map_of properties ''id'' = Some (JObj [(''schema'', JObj [(''type'', JStr ''string'')])])"
    "map_of properties ''verbose'' = Some (JObj [(''schema'', JObj [(''type'', JStr ''boolean'')])])"
    "map_of properties ''other'' = None"
    by (simp_all add: m param_defs)
  with h b r show ?thesis by auto
qed

text \<open>
  Claim C6 as it is stated fails: the member of \<^verbatim>\<open>properties\<close> for the parameter \<^verbatim>\<open>id\<close> is
  not its schema \<^verbatim>\<open>{type: "string"}\<close> but the object \<^verbatim>\<open>{schema: {type: "string"}}\<close>.
\<close>

theorem buildSchemaFromParameters_counterexample:
  "buildSchemaFromParameters [id_parameter] =
     Inr (JObj [(''type'', JStr ''object''),
                (''properties'', JObj [(''id'', JObj [(''schema'', JObj [(''type'', JStr ''string'')])])]),
                (''required'', JArr [JStr ''id'']),
                (''additionalProperties'', JBool False)])
   \<and> parameter_field id_parameter ''schema'' = JObj [(''type'', JStr ''string'')]
   \<and> JObj [(''schema'', JObj [(''type'', JStr ''string'')])] \<noteq> JObj [(''type'', JStr ''string'')]"
  by (simp add: buildSchemaFromParameters_def add_parameter.simps param_defs obj_defs)

section \<open>Reference rewriting\<close>

lemma find_SomeD: "find P xs = Some x \<Longrightarrow> x \<in> set xs \<and> P x"
  by (induction xs) (auto split: if_splits)

lemma split_first_prefix:
  "prefix m s \<Longrightarrow> m \<noteq> [] \<Longrightarrow> split_first m s = Some ([], drop (length m) s)"
  by (cases s) auto

lemma ref_prefix_facts:
  assumes "p \<in> set ref_prefixes"
  shows "dquote \<notin> set p" "p \<noteq> []" "last p = CHR ''/''"
  using assms by (auto simp: ref_prefixes_def COMPONENT_KINDS_def dquote_def)

lemma starts_ref_iff:
  "starts_ref t \<longleftrightarrow> (\<exists>p \<in> set ref_prefixes. \<exists>c r. t = p @ c # r \<and> c \<noteq> dquote)"
proof
  assume "starts_ref t"
  then obtain p where p: "p \<in> set ref_prefixes" "prefix p t"
      "takeWhile (\<lambda>c. c \<noteq> dquote) (drop (length p) t) \<noteq> []"
    unfolding starts_ref_def COMPONENT_REF_REGEXP_at_def
    by (auto split: option.splits dest: find_SomeD)
  from p(2) obtain u where u: "t = p @ u" by (auto simp: prefix_def)
  with p(3) have "u \<noteq> []" "hd u \<noteq> dquote" by (auto simp: takeWhile_eq_Nil_iff)
  then obtain c r where "u = c # r" "c \<noteq> dquote" by (cases u) auto
  with u p(1) show "\<exists>p \<in> set ref_prefixes. \<exists>c r. t = p @ c # r \<and> c \<noteq> dquote" by blast
next
  assume "\<exists>p \<in> set ref_prefixes. \<exists>c r. t = p @ c # r \<and> c \<noteq> dquote"
  then obtain p c r where "p \<in> set ref_prefixes" "t = p @ c # r" "c \<noteq> dquote" by blast
  then have "\<exists>x. x \<in> set ref_prefixes \<and> prefix x t
      \<and> takeWhile (\<lambda>c. c \<noteq> dquote) (drop (length x) t) \<noteq> []"
    by (intro exI[of _ p]) auto
  then show "starts_ref t"
    unfolding starts_ref_def COMPONENT_REF_REGEXP_at_def
    by (auto split: option.splits simp: find_None_iff)
qed

lemma COMPONENT_REF_REGEXP_at_SomeD:
  assumes "COMPONENT_REF_REGEXP_at s = Some (m, rest)"
  shows "s = m @ rest"
    and "\<exists>p \<in> set ref_prefixes. \<exists>c b. m = p @ c # b \<and> c \<noteq> dquote"
    and "dquote \<notin> set m"
    and "rest = [] \<or> hd rest = dquote"
proof -
  from assms obtain p where p: "p \<in> set ref_prefixes" "prefix p s"
      "takeWhile (\<lambda>c. c \<noteq> dquote) (drop (length p) s) \<noteq> []"
    and m: "m = p @ takeWhile (\<lambda>c. c \<noteq> dquote) (drop (length p) s)"
    and rest: "rest = dropWhile (\<lambda>c. c \<noteq> dquote) (drop (length p) s)"
    by (auto simp: COMPONENT_REF_REGEXP_at_def split: option.splits dest: find_SomeD)
  from p(2) obtain u where u: "s = p @ u" by (auto simp: prefix_def)
  show "s = m @ rest" unfolding m rest u by simp
  from p(3) u obtain c b where "takeWhile (\<lambda>c. c \<noteq> dquote) u = c # b"
    by (cases "takeWhile (\<lambda>c. c \<noteq> dquote) u") auto
  moreover from this have "c \<noteq> dquote"
    by (metis list.set_intros(1) set_takeWhileD)
  ultimately show "\<exists>p \<in> set ref_prefixes. \<exists>c b. m = p @ c # b \<and> c \<noteq> dquote"
    using p(1) m u by auto
  show "dquote \<notin> set m"
    unfolding m using ref_prefix_facts(1)[OF p(1)] by (auto dest: set_takeWhileD)
  show "rest = [] \<or> hd rest = dquote"
    unfolding rest using hd_dropWhile[of "\<lambda>c. c \<noteq> dquote" "drop (length p) s"] by auto
qed

lemma get_substitution_plain:
  "CHR ''$'' \<notin> set rep \<Longrightarrow> get_substitution m b a rep = rep"
  by (induction m b a rep rule: get_substitution.induct) auto

lemma prefix_ref_starts_ref:
  assumes "prefix m t" "p \<in> set ref_prefixes" "m = p @ c # b" "c \<noteq> dquote"
  shows "starts_ref t"
proof -
  from assms(1,3) obtain u where "t = p @ c # (b @ u)" by (auto simp: prefix_def)
  with assms(2,4) show ?thesis unfolding starts_ref_iff by blast
qed

lemma split_first_clean:
  assumes "clean_before A (m @ R)" "p \<in> set ref_prefixes" "m = p @ c # b" "c \<noteq> dquote"
  shows "split_first m (A @ m @ R) = Some (A, R)"
  using assms(1)
proof (induction A)
  case Nil
  from assms(3) have "m \<noteq> []" by simp
  from split_first_prefix[OF _ this, of "m @ R"] show ?case by simp
next
  case (Cons a A)
  then have ns: "\<not> starts_ref (a # A @ m @ R)" and cb: "clean_before A (m @ R)" by simp_all
  from ns have "\<not> prefix m (a # A @ m @ R)"
    using prefix_ref_starts_ref[OF _ assms(2,3,4)] by blast
  with Cons.IH[OF cb] show ?case by simp
qed

lemma clean_before_append:
  "clean_before (A @ B) T = (clean_before A (B @ T) \<and> clean_before B T)"
  by (induction A) auto

lemma no_slash_not_starts_ref:
  assumes "CHR ''/'' \<notin> set N" "rest = [] \<or> hd rest = dquote"
  shows "\<not> starts_ref (N @ rest)"
proof
  assume "starts_ref (N @ rest)"
  then obtain p c r where p: "p \<in> set ref_prefixes" and eq: "N @ rest = p @ c # r"
    unfolding starts_ref_iff by blast
  note pf = ref_prefix_facts[OF p]
  from eq consider (a) us where "N = p @ us" | (b) us where "N @ us = p" "rest = us @ c # r" "us \<noteq> []"
    by (auto simp: append_eq_append_conv2) (metis append_Nil2)
  then show False
  proof cases
    case a
    with pf(2,3) have "CHR ''/'' \<in> set N" by (metis last_in_set set_append UnI1)
    with assms(1) show False by contradiction
  next
    case b
    then have "rest \<noteq> []" "hd rest = hd us" by auto
    with assms(2) b(3) have "dquote \<in> set us" by (metis hd_in_set)
    with b(1) pf(1) show False by auto
  qed
qed

lemma clean_before_no_slash:
  assumes "CHR ''/'' \<notin> set N" "rest = [] \<or> hd rest = dquote"
  shows "clean_before N rest"
  using assms(1)
proof (induction N)
  case Nil
  then show ?case by simp
next
  case (Cons a N)
  then have "\<not> starts_ref ((a # N) @ rest)"
    using no_slash_not_starts_ref[OF _ assms(2), of "a # N"] by blast
  with Cons show ?case by simp
qed

lemma starts_ref_replace:
  assumes sr: "starts_ref (A @ N @ rest)" and A: "A \<noteq> []"
    and N: "CHR ''/'' \<notin> set N" and rest: "rest = [] \<or> hd rest = dquote"
    and m: "m \<noteq> []" "hd m \<noteq> dquote"
  shows "starts_ref (A @ m @ rest)"
proof -
  from sr obtain p c r where p: "p \<in> set ref_prefixes" and eq: "A @ N @ rest = p @ c # r"
    and c: "c \<noteq> dquote"
    unfolding starts_ref_iff by blast
  note pf = ref_prefix_facts[OF p]
  from eq consider (long) us where "A = p @ us" "us @ N @ rest = c # r"
    | (short) us where "A @ us = p" "N @ rest = us @ c # r"
    by (auto simp: append_eq_append_conv2)
  then show ?thesis
  proof cases
    case long
    show ?thesis
    proof (cases us)
      case Nil
      with long m obtain x xs where "A @ m @ rest = p @ x # xs" "x \<noteq> dquote"
        by (cases m) auto
      with p show ?thesis unfolding starts_ref_iff by blast
    next
      case (Cons x xs)
      with long have "x = c" by simp
      with Cons long(1) have "A @ m @ rest = p @ c # (xs @ m @ rest)" by simp
      with p c show ?thesis unfolding starts_ref_iff by blast
    qed
  next
    case short
    show ?thesis
    proof (cases us)
      case Nil
      with short have Ap: "A = p" by simp
      from m obtain x xs where "m = x # xs" "x \<noteq> dquote" by (cases m) auto
      with Ap have "A @ m @ rest = p @ x # (xs @ rest)" by simp
      with p \<open>x \<noteq> dquote\<close> show ?thesis unfolding starts_ref_iff by blast
    next
      case (Cons x xs)
      then have us: "us \<noteq> []" by simp
      from short(1) us pf(3) have lu: "last us = CHR ''/''" by auto
      from short(2) consider (a) vs where "N = us @ vs"
        | (b) vs where "N @ vs = us" "rest = vs @ c # r" "vs \<noteq> []"
        by (auto simp: append_eq_append_conv2) (metis append_Nil2)
      then show ?thesis
      proof cases
        case a
        with us lu have "CHR ''/'' \<in> set N" by (metis last_in_set set_append UnI1)
        with N show ?thesis by contradiction
      next
        case b
        then have "rest \<noteq> []" "hd rest = hd vs" by auto
        with rest b(3) have "dquote \<in> set vs" by (metis hd_in_set)
        with b(1) short(1) pf(1) show ?thesis by auto
      qed
    qed
  qed
qed

lemma clean_before_replace:
  assumes "clean_before A (m @ rest)"
    and N: "CHR ''/'' \<notin> set N" and rest: "rest = [] \<or> hd rest = dquote"
    and m: "m \<noteq> []" "hd m \<noteq> dquote"
  shows "clean_before A (N @ rest)"
  using assms(1)
proof (induction A)
  case Nil
  then show ?case by simp
next
  case (Cons a A)
  then have ns: "\<not> starts_ref ((a # A) @ m @ rest)" and cb: "clean_before A (m @ rest)"
    by simp_all
  from ns have "\<not> starts_ref ((a # A) @ N @ rest)"
    using starts_ref_replace[OF _ _ N rest m, of "a # A"] by blast
  with Cons.IH[OF cb] show ?case by simp
qed

lemma no_slash_last_segment: "CHR ''/'' \<notin> set (last_segment m @ ''.json'')"
  by (auto simp: last_segment_def dest: set_takeWhileD)

lemma rewrite_refs_loop:
  assumes "clean_before A R" "dollar_free R"
  shows "foldl (\<lambda>acc ref. string_replace acc ref (last_segment ref @ ''.json''))
           (A @ R) (match_COMPONENT_REF R) = A @ rewrite_refs_spec R
         \<and> clean_before (A @ rewrite_refs_spec R) []"
  using assms
proof (induction R arbitrary: A rule: match_COMPONENT_REF.induct)
  case 1
  then show ?case by simp
next
  case (2 c cs)
  show ?case
  proof (cases "COMPONENT_REF_REGEXP_at (c # cs)")
    case None
    then have ns: "\<not> starts_ref (c # cs)" by (simp add: starts_ref_def)
    from "2.prems"(1) ns have cb: "clean_before (A @ [c]) cs"
      by (simp add: clean_before_append)
    from "2.prems"(2) None have df: "dollar_free cs" by (simp add: dollar_free_def)
    from "2.IH"(1)[OF None cb df] None show ?thesis by simp
  next
    case (Some mr)
    obtain m rest where mr: "mr = (m, rest)" by (cases mr)
    note S = Some[unfolded mr]
    note D = COMPONENT_REF_REGEXP_at_SomeD[OF S]
    from D(2) obtain p x b where p: "p \<in> set ref_prefixes" "m = p @ x # b" "x \<noteq> dquote"
      by blast
    have "hd p \<in> set p" using ref_prefix_facts(2)[OF p(1)] by simp
    then have "hd p \<noteq> dquote" using ref_prefix_facts(1)[OF p(1)] by metis
    then have m: "m \<noteq> []" "hd m \<noteq> dquote"
      using p(2) ref_prefix_facts(2)[OF p(1)] by (simp_all add: hd_append)
    define N where "N = last_segment m @ ''.json''"
    from "2.prems"(2) S have d1: "CHR ''$'' \<notin> set N" and df: "dollar_free rest"
      by (simp_all add: dollar_free_def N_def)
    from "2.prems"(1) have cbm: "clean_before A (m @ rest)" using D(1) by simp
    have rep: "string_replace (A @ c # cs) m N = A @ N @ rest"
      using split_first_clean[OF cbm p] get_substitution_plain[OF d1] D(1)
      by (simp add: string_replace_def)
    have cb: "clean_before (A @ N) rest"
      unfolding clean_before_append
      using clean_before_replace[OF cbm _ D(4) m, of N]
        clean_before_no_slash[OF _ D(4), of N] no_slash_last_segment[of m]
      by (simp add: N_def)
    from "2.IH"(2)[OF S refl cb df] S rep show ?thesis
      by (simp add: N_def)
  qed
qed

lemma clean_no_match: "clean_before S [] \<Longrightarrow> match_COMPONENT_REF S = []"
  by (induction S) (auto simp: starts_ref_def split: option.splits)

text \<open>Rules for evaluating the scans on a given text: only a \<^verbatim>\<open>#\<close> can start a match.\<close>

lemma COMPONENT_REF_REGEXP_at_skip:
  assumes "c \<noteq> CHR ''#''"
  shows "COMPONENT_REF_REGEXP_at (c # cs) = None"
proof -
  have "\<not> prefix p (c # cs)" if "p \<in> set ref_prefixes" for p
    using that assms by (auto simp: ref_prefixes_def COMPONENT_KINDS_def)
  then show ?thesis
    by (auto simp: COMPONENT_REF_REGEXP_at_def find_None_iff split: option.splits)
qed

lemma match_COMPONENT_REF_skip:
  "c \<noteq> CHR ''#'' \<Longrightarrow> match_COMPONENT_REF (c # cs) = match_COMPONENT_REF cs"
  by (simp add: COMPONENT_REF_REGEXP_at_skip)

lemma match_COMPONENT_REF_hash:
  "match_COMPONENT_REF (CHR ''#'' # cs) =
     (case COMPONENT_REF_REGEXP_at (CHR ''#'' # cs) of
        None \<Rightarrow> match_COMPONENT_REF cs
      | Some (m, rest) \<Rightarrow> m # match_COMPONENT_REF rest)"
  by simp

lemma rewrite_refs_spec_skip:
  "c \<noteq> CHR ''#'' \<Longrightarrow> rewrite_refs_spec (c # cs) = c # rewrite_refs_spec cs"
  by (simp add: COMPONENT_REF_REGEXP_at_skip)

lemma rewrite_refs_spec_hash:
  "rewrite_refs_spec (CHR ''#'' # cs) =
     (case COMPONENT_REF_REGEXP_at (CHR ''#'' # cs) of
        None \<Rightarrow> CHR ''#'' # rewrite_refs_spec cs
      | Some (m, rest) \<Rightarrow> last_segment m @ ''.json'' @ rewrite_refs_spec rest)"
  by simp

lemmas scan_rules = match_COMPONENT_REF_skip match_COMPONENT_REF_hash rewrite_refs_spec_skip
  rewrite_refs_spec_hash

lemmas scan_simps = match_COMPONENT_REF.simps(2) rewrite_refs_spec.simps(2)

lemmas ref_defs = COMPONENT_REF_REGEXP_at_def ref_prefixes_def COMPONENT_KINDS_def dquote_def
  last_segment_def string_replace_def rewrite_refs_def dollar_free_def

lemmas stringify_defs = JSON_stringify_def quote_def escape_char_def is_control_def newline_def
  dquote_def bslash_def

lemma rewrite_refs_dollar_sign:
  "rewrite_refs (serialize 0 (JObj [(''$ref'', JStr ''#/components/schemas/a$&'')]))
     = serialize 0 (JObj [(''$ref'', JStr ''a#/components/schemas/a$&.json'')])"
  by (simp add: stringify_defs ref_defs scan_rules del: scan_simps)

text \<open>
  Claim C3, as amended. In a serialized document every match of the pattern, that is
  one of the nine prefixes \<^verbatim>\<open>#/components/<kind>/\<close> wherever it stands, with all the
  characters up to the next double quote, is replaced by its last segment followed by
  \<^verbatim>\<open>.json\<close>, each occurrence on its own, and every character outside the matches is kept:
  the loop of \<^verbatim>\<open>processSchema\<close> computes \<open>rewrite_refs_spec\<close>. This holds when no matched
  reference has a dollar sign in its last segment.
\<close>

theorem rewrite_refs_eq_spec:
  assumes "dollar_free s"
  shows "rewrite_refs s = rewrite_refs_spec s"
  using rewrite_refs_loop[of "[]" s, OF _ assms]
  by (simp add: rewrite_refs_def)

text \<open>
  A document with a reference that occurs twice, a reference of another kind of the
  set, and a reference outside \<^verbatim>\<open>#/components/\<close>, which is kept.
\<close>

theorem rewrite_refs_eq_spec_witness:
  "dollar_free (serialize 0 pet_document)
   \<and> rewrite_refs (serialize 0 pet_document) = rewrite_refs_spec (serialize 0 pet_document)
   \<and> rewrite_refs_spec (serialize 0 pet_document) = serialize 0 pet_document_rewritten"
proof -
  have h: "dollar_free (serialize 0 pet_document)"
    by (simp add: pet_document_def stringify_defs ref_defs scan_rules del: scan_simps)
  have "rewrite_refs_spec (serialize 0 pet_document) = serialize 0 pet_document_rewritten"
    by (simp add: pet_document_def pet_document_rewritten_def stringify_defs ref_defs
        scan_rules del: scan_simps)
  with rewrite_refs_eq_spec[OF h] h show ?thesis by simp
qed

text \<open>
  Claim C3 as it is stated fails: a reference into another file does not start with
  \<^verbatim>\<open>#/components/\<close>, and it is rewritten all the same, since the pattern is searched
  for anywhere in the text.
\<close>

theorem rewrite_refs_external_counterexample:
  "rewrite_refs (serialize 0 (JObj [(''$ref'', JStr ''other.yaml#/components/schemas/Pet'')]))
     = serialize 0 (JObj [(''$ref'', JStr ''other.yamlPet.json'')])
   \<and> \<not> prefix ''#/components/'' ''other.yaml#/components/schemas/Pet''"
  by (simp add: stringify_defs ref_defs scan_rules del: scan_simps)

section \<open>The file system\<close>

lemma resolve_cwd: "cwd fs' = cwd fs \<Longrightarrow> resolve fs' p = resolve fs p"
  by (simp add: resolve_def)

lemma set_fold_insert: "set (fold List.insert ys xs) = set ys \<union> set xs"
  by (induction ys arbitrary: xs) auto

lemma ensureDirSync_cases:
  assumes "ensureDirSync p fs = (r, fs')"
  obtains (blocked) "list_ex (is_file fs) (prefixes (resolve fs p))" "r = Some FsError" "fs' = fs"
  | (made) "\<not> list_ex (is_file fs) (prefixes (resolve fs p))" "r = None"
      "fs' = fs\<lparr>dirs := fold List.insert (tl (prefixes (resolve fs p))) (dirs fs)\<rparr>"
  using assms unfolding ensureDirSync_def
  by (cases "list_ex (is_file fs) (prefixes (resolve fs p))") simp_all

lemma ensureDirSync_frame:
  assumes "ensureDirSync p fs = (r, fs')"
  shows "cwd fs' = cwd fs" "files fs' = files fs" "set (dirs fs) \<subseteq> set (dirs fs')"
  using assms by (cases rule: ensureDirSync_cases; simp add: set_fold_insert)+

lemma writeFileSync_error:
  "writeFileSync p d fs = (Some e, fs') \<Longrightarrow> fs' = fs"
  by (auto simp: writeFileSync_def split: option.splits if_splits)

lemma writeFileSync_ok:
  assumes "writeFileSync p d fs = (None, fs')"
  shows "\<exists>text. d = Some text
           \<and> fs' = fs\<lparr>files := AList.update (resolve fs p) text (files fs)\<rparr>"
  using assms by (auto simp: writeFileSync_def split: option.splits if_splits)

lemma writeFileSync_read:
  assumes "writeFileSync p (Some text) fs = (None, fs')"
  shows "readFileSync p fs' = Inr text"
  using writeFileSync_ok[OF assms]
  by (auto simp: readFileSync_def resolve_def update_conv')

lemma writeFileSync_keeps:
  assumes "writeFileSync p d fs = (r, fs')" "is_file fs q"
  shows "is_file fs' q"
proof (cases r)
  case None
  with writeFileSync_ok[of p d fs fs'] assms show ?thesis
    by (auto simp: is_file_def update_conv')
next
  case (Some e)
  with writeFileSync_error[of p d fs e fs'] assms show ?thesis by simp
qed

lemma saveSchema_cases:
  assumes "saveSchema schemasPath kw filename d fs = (r, fs')"
  obtains (dir_error) e where
      "ensureDirSync (path_join schemasPath kw) fs = (Some e, fs')" "r = Some e"
  | (written) fs1 where
      "ensureDirSync (path_join schemasPath kw) fs = (None, fs1)"
      "writeFileSync (path_join (path_join schemasPath kw) (filename @ ''.json'')) d fs1 = (r, fs')"
proof -
  obtain r1 fs1 where e: "ensureDirSync (path_join schemasPath kw) fs = (r1, fs1)"
    by (cases "ensureDirSync (path_join schemasPath kw) fs")
  show thesis
  proof (cases r1)
    case None
    with assms e show thesis by (intro written[of fs1]) (simp_all add: saveSchema_def)
  next
    case (Some e1)
    with assms e show thesis by (intro dir_error[of e1]) (simp_all add: saveSchema_def)
  qed
qed

lemma saveSchema_read:
  assumes "saveSchema schemasPath kw filename (Some text) fs = (None, fs')"
  shows "readFileSync (path_join (path_join schemasPath kw) (filename @ ''.json'')) fs' = Inr text"
  using assms
proof (cases rule: saveSchema_cases)
  case (dir_error e)
  then show ?thesis by simp
next
  case (written fs1)
  then show ?thesis by (simp add: writeFileSync_read)
qed

lemma saveSchema_error_files:
  assumes "saveSchema schemasPath kw filename d fs = (Some e, fs')"
  shows "files fs' = files fs"
  using assms
proof (cases rule: saveSchema_cases)
  case (dir_error e)
  then show ?thesis by (simp add: ensureDirSync_frame(2))
next
  case (written fs1)
  from writeFileSync_error[OF written(2)] ensureDirSync_frame(2)[OF written(1)]
  show ?thesis by simp
qed

lemma saveSchema_keeps:
  assumes "saveSchema schemasPath kw filename d fs = (r, fs')" "is_file fs q"
  shows "is_file fs' q"
  using assms(1)
proof (cases rule: saveSchema_cases)
  case (dir_error e)
  from ensureDirSync_frame(2)[OF dir_error(1)] assms(2) show ?thesis
    by (simp add: is_file_def)
next
  case (written fs1)
  from ensureDirSync_frame(2)[OF written(1)] assms(2) have "is_file fs1 q"
    by (simp add: is_file_def)
  with writeFileSync_keeps[OF written(2)] show ?thesis by simp
qed

lemma set_tl_prefixes: "set (tl (prefixes q)) = {r. prefix r q \<and> r \<noteq> []}"
  by (cases q) (auto simp: prefix_Cons Cons_prefix_Cons)

lemma reset_directory:
  assumes "ensureDirSync schemasPath (removeSync schemasPath fs) = (None, fs1)"
  shows "is_dir fs1 (resolve fs schemasPath)" "dir_empty fs1 (resolve fs schemasPath)"
proof -
  define out where "out = resolve fs schemasPath"
  have r: "resolve (removeSync schemasPath fs) schemasPath = out"
    by (simp add: resolve_def removeSync_def out_def)
  from assms have fs1: "fs1 = (removeSync schemasPath fs)
      \<lparr>dirs := fold List.insert (tl (prefixes out)) (dirs (removeSync schemasPath fs))\<rparr>"
    by (cases rule: ensureDirSync_cases) (simp_all add: r)
  show "is_dir fs1 (resolve fs schemasPath)"
    unfolding out_def[symmetric] fs1
    by (simp add: is_dir_def set_fold_insert set_tl_prefixes)
  have "\<not> prefix out (fst f)" if "f \<in> set (files fs1)" for f
    using that unfolding fs1 by (simp add: removeSync_def out_def)
  moreover have "\<not> strict_prefix out q" if "q \<in> set (dirs fs1)" for q
    using that unfolding fs1
    by (auto simp: removeSync_def out_def[symmetric] set_fold_insert set_tl_prefixes
        strict_prefix_def)
  ultimately show "dir_empty fs1 (resolve fs schemasPath)"
    unfolding out_def[symmetric] dir_empty_def list_all_iff by blast
qed

section \<open>Loops\<close>

lemma forEach_append:
  "forEach f (xs @ ys) s =
     (case forEach f xs s of
        (Some e, s') \<Rightarrow> (Some e, s')
      | (None, s') \<Rightarrow> forEach f ys s')"
  by (induction xs arbitrary: s) (auto split: prod.splits option.splits)

lemma forEach_invariant:
  assumes "forEach f xs s = (r, s')" "P s"
    and "\<And>x t r t'. x \<in> set xs \<Longrightarrow> P t \<Longrightarrow> f x t = (r, t') \<Longrightarrow> P t'"
  shows "P s'"
  using assms
proof (induction xs arbitrary: s)
  case Nil
  then show ?case by simp
next
  case (Cons x xs)
  obtain r1 s1 where f: "f x s = (r1, s1)" by (cases "f x s")
  have P1: "P s1" using Cons.prems(3)[OF _ Cons.prems(2) f] by simp
  show ?case
  proof (cases r1)
    case None
    with Cons.prems(1) f have "forEach f xs s1 = (r, s')" by simp
    from Cons.IH[OF this P1] Cons.prems(3) show ?thesis by auto
  next
    case (Some e)
    with Cons.prems(1) f P1 show ?thesis by simp
  qed
qed

lemma forEach_keeps:
  assumes "forEach f xs fs = (r, fs')" "is_file fs q"
    and "\<And>x t r t'. f x t = (r, t') \<Longrightarrow> is_file t q \<Longrightarrow> is_file t' q"
  shows "is_file fs' q"
  by (rule forEach_invariant[OF assms(1), of "\<lambda>t. is_file t q"]) (use assms(2,3) in auto)

section \<open>Component extraction\<close>

lemma processSchema_entry_cases:
  assumes "processSchema_entry env schemasPath kw isArr entry (acc, fs) = (r, acc', fs')"
  obtains (render_error) e where "processSchema_render env isArr entry = Inl e"
      "r = Some e" "acc' = acc" "fs' = fs"
  | (save_error) filename adapted payload e where
      "processSchema_render env isArr entry = Inr (filename, adapted, payload)"
      "saveSchema schemasPath kw filename (Some payload) fs = (Some e, fs')"
      "r = Some e" "acc' = acc"
  | (saved) filename adapted payload where
      "processSchema_render env isArr entry = Inr (filename, adapted, payload)"
      "saveSchema schemasPath kw filename (Some payload) fs = (None, fs')"
      "r = None" "acc' = acc @ [(fst entry, adapted)]"
proof (cases "processSchema_render env isArr entry")
  case (Inl e)
  with assms have "r = Some e" "acc' = acc" "fs' = fs"
    by (simp_all add: processSchema_entry.simps)
  with Inl show thesis by (rule render_error)
next
  case (Inr t)
  obtain filename adapted payload where t: "t = (filename, adapted, payload)" by (cases t)
  obtain r1 fs1 where s: "saveSchema schemasPath kw filename (Some payload) fs = (r1, fs1)"
    by (cases "saveSchema schemasPath kw filename (Some payload) fs")
  show thesis
  proof (cases r1)
    case None
    with assms Inr t s have "r = None" "acc' = acc @ [(fst entry, adapted)]" "fs1 = fs'"
      by (simp_all add: processSchema_entry.simps)
    with Inr t s None show thesis by (intro saved[of filename adapted payload]) simp_all
  next
    case (Some e)
    with assms Inr t s have "r = Some e" "acc' = acc" "fs1 = fs'"
      by (simp_all add: processSchema_entry.simps)
    with Inr t s Some show thesis by (intro save_error[of filename adapted payload e]) simp_all
  qed
qed

lemma processSchema_render_cases:
  assumes "processSchema_render env isArr entry = Inr (filename, adapted, payload)"
  obtains name serialized where
      "(if isArr then js_get (snd entry) ''name'' else Inr (JStr (fst entry))) = Inr name"
      "getFilename env name = Inr filename"
      "adaptSchema (snd entry) name filename = Inr adapted"
      "JSON_stringify adapted = Some serialized"
      "payload = rewrite_refs serialized"
  using assms unfolding processSchema_render_def
  by (auto split: sum.splits option.splits)

text \<open>The body of the loop has no path that skips an entry: it raises, or it writes.\<close>

lemma processSchema_entry_never_skips:
  "processSchema_entry env schemasPath kw isArr entry (acc, fs) \<noteq> (None, acc, fs')"
proof
  assume "processSchema_entry env schemasPath kw isArr entry (acc, fs) = (None, acc, fs')"
  then show False by (cases rule: processSchema_entry_cases) simp_all
qed

lemma pet_entry:
  "processSchema_entry (example_collaborators JNull) ''out'' ''components.schemas'' False
     (''Pet'', pet_document) ([], reset_disk)
   = (None, [(''Pet'', pet_adapted)], disk_after_Pet)"
  by (simp add: pet_document_def pet_adapted_def disk_after_Pet_def reset_disk_def
      run_defs fs_defs obj_defs JSON_stringify_def del: serialize.simps)

lemma pet_dollar_free: "dollar_free (serialize 0 pet_adapted)"
  by (simp add: pet_adapted_def stringify_defs ref_defs scan_rules del: scan_simps)

text \<open>
  Claim C4, as amended. Every file that component extraction writes holds the
  serialized adapted entry with its references rewritten, under the file name resolved
  for the entry; when no matched reference has a dollar sign in its last segment, the
  file holds no match of \<^verbatim>\<open>#/components/<kind>/...\<close> for a kind of the fixed set, each
  having been replaced by its last segment followed by \<^verbatim>\<open>.json\<close>. The name written is
  the last segment as it stands: it is not passed through the file name resolver, and
  nothing checks that a file of that name is written beside this one.
\<close>

theorem processSchema_entry_references:
  assumes "processSchema_entry env schemasPath definitionKeyword isArr entry (acc, fs)
             = (None, acc', fs')"
  shows "\<exists>filename adapted serialized.
           processSchema_render env isArr entry
             = Inr (filename, adapted, rewrite_refs serialized)
         \<and> JSON_stringify adapted = Some serialized
         \<and> acc' = acc @ [(fst entry, adapted)]
         \<and> readFileSync
               (path_join (path_join schemasPath definitionKeyword) (filename @ ''.json'')) fs'
             = Inr (rewrite_refs serialized)
         \<and> (dollar_free serialized \<longrightarrow>
               match_COMPONENT_REF (rewrite_refs serialized) = []
               \<and> rewrite_refs serialized = rewrite_refs_spec serialized)"
  using assms
proof (cases rule: processSchema_entry_cases)
  case (render_error e)
  then show ?thesis by simp
next
  case (save_error filename adapted payload e)
  then show ?thesis by simp
next
  case (saved filename adapted payload)
  from saved(1) obtain serialized where t: "JSON_stringify adapted = Some serialized"
      "payload = rewrite_refs serialized"
    by (cases rule: processSchema_render_cases) blast
  have "dollar_free serialized \<longrightarrow>
          match_COMPONENT_REF (rewrite_refs serialized) = []
          \<and> rewrite_refs serialized = rewrite_refs_spec serialized"
    using rewrite_refs_loop[of "[]" serialized] clean_no_match
    by (simp add: rewrite_refs_def)
  with saved(1,4) t saveSchema_read[OF saved(2)] show ?thesis by auto
qed

theorem processSchema_entry_references_witness:
  "processSchema_entry (example_collaborators JNull) ''out'' ''components.schemas'' False
     (''Pet'', pet_document) ([], reset_disk)
   = (None, [(''Pet'', pet_adapted)], disk_after_Pet)
   \<and> dollar_free (serialize 0 pet_adapted)
   \<and> readFileSync ''out/components.schemas/Pet.json'' disk_after_Pet
       = Inr (rewrite_refs (serialize 0 pet_adapted))
   \<and> match_COMPONENT_REF (rewrite_refs (serialize 0 pet_adapted)) = []"
proof -
  from processSchema_entry_references[OF pet_entry]
  obtain filename adapted serialized where
    a: "JSON_stringify adapted = Some serialized"
    and b: "[(''Pet'', pet_adapted)] = [] @ [(fst (''Pet'', pet_document), adapted)]"
    and c: "dollar_free serialized \<longrightarrow> match_COMPONENT_REF (rewrite_refs serialized) = []"
    by blast
  from b have "adapted = pet_adapted" by simp
  with a have "serialized = serialize 0 pet_adapted"
    by (simp add: JSON_stringify_def split: if_splits)
  with c pet_dollar_free
  have m: "match_COMPONENT_REF (rewrite_refs (serialize 0 pet_adapted)) = []" by simp
  have r: "readFileSync ''out/components.schemas/Pet.json'' disk_after_Pet
       = Inr (rewrite_refs (serialize 0 pet_adapted))"
    by (simp add: disk_after_Pet_def fs_defs)
  from pet_entry pet_dollar_free r m show ?thesis by simp
qed

text \<open>
  Claim C4 as it is stated fails: the reference of \<^verbatim>\<open>Pair\<close> to its own property \<^verbatim>\<open>x\<close> is
  written as \<^verbatim>\<open>x.json\<close>, and the run, which writes \<^verbatim>\<open>Pair.json\<close> alone, writes no file of
  that name.
\<close>

theorem processSchema_dangling_counterexample:
  "processSchema (example_collaborators JNull) (JObj [(''Pair'', pair_schema)])
     ''out'' ''components.schemas'' False reset_disk
   = (None, JObj [(''Pair'', pair_adapted)], disk_after_Pair)
   \<and> \<not> is_file disk_after_Pair [''work'', ''out'', ''components.schemas'', ''x.json'']"
  by (simp add: pair_schema_def pair_adapted_def pair_written_def disk_after_Pair_def
      reset_disk_def run_defs fs_defs obj_defs stringify_defs ref_defs scan_rules
      del: scan_simps)

lemma first_example_loop:
  "forEach (processSchema_entry (example_collaborators JNull) ''out'' ''components.examples'' True)
     [(''0'', first_example)] ([], reset_disk)
   = (None, [(''0'', first_example_adapted)], disk_after_First)"
  by (simp add: first_example_def first_example_adapted_def disk_after_First_def reset_disk_def
      run_defs fs_defs obj_defs JSON_stringify_def del: serialize.simps)

text \<open>
  Claim C9, as amended. An entry of an array collection whose element is an object
  without \<^verbatim>\<open>name\<close> is not skipped: its name is \<^verbatim>\<open>undefined\<close>, and that is what the file
  name resolver is given. When the resolver raises on it, as \<open>filenamify\<close> does on a
  value that is not a string, no file name is produced and no write is attempted for
  the entry, but the error is raised to the caller of \<^verbatim>\<open>processSchema\<close> and the loop
  ends there: the entries before it are written, the entries after it are not
  processed.
\<close>

theorem processSchema_nameless_entry:
  assumes "filenamify env JUndef = Inl e"
    and "\<not> has_own element ''name''"
    and "forEach (processSchema_entry env schemasPath kw True) earlier st = (None, st')"
  shows "forEach (processSchema_entry env schemasPath kw True)
           (earlier @ (k, JObj element) # later) st = (Some e, st')"
proof -
  have "processSchema_render env True (k, JObj element) = Inl e"
    using assms(1,2)
    by (simp add: processSchema_render_def js_get_def obj_get_def has_own_def getFilename_def)
  then have "processSchema_entry env schemasPath kw True (k, JObj element) st' = (Some e, st')"
    by (cases st') (simp add: processSchema_entry.simps)
  with assms(3) show ?thesis by (simp add: forEach_append)
qed

theorem processSchema_nameless_entry_witness:
  "filenamify (example_collaborators JNull) JUndef = Inl TypeError
   \<and> \<not> has_own [(''value'', JNum 2)] ''name''
   \<and> forEach (processSchema_entry (example_collaborators JNull) ''out'' ''components.examples'' True)
       [(''0'', first_example)] ([], reset_disk)
     = (None, [(''0'', first_example_adapted)], disk_after_First)
   \<and> forEach (processSchema_entry (example_collaborators JNull) ''out'' ''components.examples'' True)
       ([(''0'', first_example)] @ (''1'', JObj [(''value'', JNum 2)]) # [(''2'', third_example)])
       ([], reset_disk)
     = (Some TypeError, [(''0'', first_example_adapted)], disk_after_First)"
proof -
  have a: "filenamify (example_collaborators JNull) JUndef = Inl TypeError"
    by (simp add: example_collaborators_def)
  have b: "\<not> has_own [(''value'', JNum 2)] ''name''"
    by (simp add: has_own_def)
  from processSchema_nameless_entry[OF a b first_example_loop] a b first_example_loop
  show ?thesis by blast
qed

text \<open>
  Claim C9 as it is stated fails: the collection whose first element has no name makes
  \<^verbatim>\<open>processSchema\<close> raise a TypeError, and the element \<^verbatim>\<open>Third\<close> after it is not written.
\<close>

theorem processSchema_nameless_counterexample:
  "processSchema (example_collaborators JNull) (JArr [nameless_example, third_example])
     ''out'' ''components.examples'' True reset_disk
   = (Some TypeError, JArr [nameless_example, third_example], reset_disk)"
  by (simp add: nameless_example_def third_example_def reset_disk_def run_defs obj_defs)

section \<open>Path extraction\<close>

lemma bucket_step_not_nullish:
  assumes "not_nullish p"
  shows "bucket_step p acc =
           Inr \<lparr>query = query acc @ (if parameter_field p ''in'' = JStr ''path'' then [p] else []),
                path = path acc @ (if parameter_field p ''in'' = JStr ''query'' then [p] else [])\<rparr>"
  by (cases acc) (simp add: bucket_step_def js_get_not_nullish[OF assms])

lemma reduce_bucket_step:
  assumes "list_all not_nullish ps"
  shows "reduce bucket_step ps acc =
           Inr \<lparr>query = query acc @ filter (\<lambda>p. parameter_field p ''in'' = JStr ''path'') ps,
                path = path acc @ filter (\<lambda>p. parameter_field p ''in'' = JStr ''query'') ps\<rparr>"
  using assms
proof (induction ps arbitrary: acc)
  case Nil
  then show ?case by simp
next
  case (Cons p ps)
  then have nn: "not_nullish p" and rest: "list_all not_nullish ps" by simp_all
  show ?case
    by (simp add: bucket_step_not_nullish[OF nn] Cons.IH[OF rest])
qed

lemma process_bucket_emit:
  assumes "key = ''query'' \<or> key = ''path''"
  shows "process_bucket env schemasPath folder baseFilename (key, bucket) fs =
           emit_parameter_schema env schemasPath folder
             (baseFilename @ ''_'' @ key @ ''_parameters'') bucket fs"
  using assms
  by (auto simp: process_bucket_def emit_parameter_schema_def
      EXTRACTION_PARAMETERS_KEYWORDS_def PARAMETERS_KEYWORD_def cong: sum.case_cong)

lemma forEach_buckets:
  "forEach (process_bucket env schemasPath folder baseFilename)
     [(''query'', filter (\<lambda>p. parameter_field p ''in'' = JStr ''path'') ps),
      (''path'', filter (\<lambda>p. parameter_field p ''in'' = JStr ''query'') ps)] fs
   = emit_inverted_buckets env schemasPath folder baseFilename ps fs"
  by (simp add: process_bucket_emit emit_inverted_buckets_def
      split: prod.splits option.splits)

lemma widgets_parameters_not_nullish: "list_all not_nullish [id_parameter, verbose_parameter]"
  by (simp add: param_defs)

lemma widgets_buckets:
  "emit_inverted_buckets (example_collaborators JNull) ''out''
     (path_join ''/widgets/id'' ''get'') ''_widgets_id'' [id_parameter, verbose_parameter] reset_disk
   = (None, widgets_disk)"
  by (simp add: emit_inverted_buckets_def emit_parameter_schema_def reset_disk_def
      widgets_disk_def widgets_query_schema_def widgets_path_schema_def param_defs path_defs
      run_defs fs_defs obj_defs JSON_stringify_def del: serialize.simps)

lemma process_option_path_level:
  assumes "list_all not_nullish parameters"
  shows "process_option env schemasPath pathFolder baseFilename
           (''parameters'', JArr parameters) fs
         = emit_inverted_buckets env schemasPath pathFolder baseFilename parameters fs"
proof -
  have "''parameters'' \<notin> set METHODS" by (simp add: METHODS_def)
  then show ?thesis
    by (simp add: process_option_def PARAMETERS_KEYWORD_def reduce_bucket_step[OF assms]
        forEach_buckets del: forEach.simps)
qed

lemma process_option_method:
  assumes "list_all not_nullish parameters"
    and "method \<in> set METHODS"
    and "map_of operation ''parameters'' = Some (JArr parameters)"
  shows "process_option env schemasPath pathFolder baseFilename (method, JObj operation) fs
         = emit_inverted_buckets env schemasPath (path_join pathFolder method)
             baseFilename parameters fs"
  using assms(2,3)
  by (simp add: process_option_def PARAMETERS_KEYWORD_def js_in_def js_get_def has_own_def
      obj_get_def reduce_bucket_step[OF assms(1)] forEach_buckets del: forEach.simps)

text \<open>
  Claim C2. For every list of parameters the extractor processes, at the level of the
  path (the key \<^verbatim>\<open>parameters\<close>) or of an operation (a method key that has
  \<^verbatim>\<open>parameters\<close>), the parameters that are \<^verbatim>\<open>in: "path"\<close> are written under the name with the
  suffix \<^verbatim>\<open>_query_parameters\<close> and those that are \<^verbatim>\<open>in: "query"\<close> under the name with the
  suffix \<^verbatim>\<open>_path_parameters\<close>; an empty bucket writes nothing.
\<close>

theorem process_option_routes:
  assumes "list_all not_nullish parameters"
  shows "process_option env schemasPath pathFolder baseFilename
           (''parameters'', JArr parameters) fs
         = emit_inverted_buckets env schemasPath pathFolder baseFilename parameters fs
       \<and> (method \<in> set METHODS \<and> map_of operation ''parameters'' = Some (JArr parameters)
          \<longrightarrow> process_option env schemasPath pathFolder baseFilename (method, JObj operation) fs
              = emit_inverted_buckets env schemasPath (path_join pathFolder method)
                  baseFilename parameters fs)"
  using process_option_path_level[OF assms] process_option_method[OF assms] by blast

text \<open>
  The example of the claim: for \<^verbatim>\<open>get /widgets/{id}\<close> exactly two files are written, the
  one with the suffix \<^verbatim>\<open>_query_parameters\<close> with the property \<^verbatim>\<open>id\<close> and the required list
  \<^verbatim>\<open>["id"]\<close>, the one with the suffix \<^verbatim>\<open>_path_parameters\<close> with the property \<^verbatim>\<open>verbose\<close>.
\<close>

theorem process_option_routes_witness:
  "list_all not_nullish [id_parameter, verbose_parameter]
   \<and> ''get'' \<in> set METHODS
   \<and> process_option (example_collaborators JNull) ''out'' ''/widgets/id'' ''_widgets_id''
        (''get'', JObj [(''parameters'', JArr [id_parameter, verbose_parameter])]) reset_disk
      = (None, widgets_disk)
   \<and> processPathSchemas (example_collaborators JNull) widgets_document ''out''
        reset_disk = (None, widgets_disk)
   \<and> map fst (files widgets_disk)
       = [[''work'', ''api.yaml''],
          [''work'', ''out'', ''widgets'', ''id'', ''get'', ''_widgets_id_query_parameters.json''],
          [''work'', ''out'', ''widgets'', ''id'', ''get'', ''_widgets_id_path_parameters.json'']]"
proof -
  have m: "''get'' \<in> set METHODS" by (simp add: METHODS_def)
  from process_option_routes[OF widgets_parameters_not_nullish,
      of "example_collaborators JNull" "''out''" "''/widgets/id''" "''_widgets_id''"
         reset_disk "''get''" "[(''parameters'', JArr [id_parameter, verbose_parameter])]"]
    m widgets_buckets
  have o: "process_option (example_collaborators JNull) ''out'' ''/widgets/id''
        ''_widgets_id''
        (''get'', JObj [(''parameters'', JArr [id_parameter, verbose_parameter])]) reset_disk
      = (None, widgets_disk)"
    by simp
  have "processPathSchemas (example_collaborators JNull) widgets_document ''out''
        reset_disk = (None, widgets_disk)"
    by (simp add: processPathSchemas_def process_endpoint_def widgets_document_def o
        lodash_get_def castPath_def js_get_def obj_get_def object_entries_def
        strip_invalid_uri_chars_def uri_char_def squote_def Let_def)
  moreover have "map fst (files widgets_disk)
       = [[''work'', ''api.yaml''],
          [''work'', ''out'', ''widgets'', ''id'', ''get'', ''_widgets_id_query_parameters.json''],
          [''work'', ''out'', ''widgets'', ''id'', ''get'', ''_widgets_id_path_parameters.json'']]"
    by (simp add: widgets_disk_def)
  ultimately show ?thesis using widgets_parameters_not_nullish m o by simp
qed

lemma widgets_run:
  "processPathSchemas (example_collaborators JNull) widgets_document ''out'' reset_disk
   = (None, widgets_disk)"
proof -
  have "''get'' \<in> set METHODS" by (simp add: METHODS_def)
  from process_option_method[OF widgets_parameters_not_nullish this,
      of "[(''parameters'', JArr [id_parameter, verbose_parameter])]"
         "example_collaborators JNull" "''out''" "''/widgets/id''" "''_widgets_id''" reset_disk]
  have "process_option (example_collaborators JNull) ''out'' ''/widgets/id'' ''_widgets_id''
        (''get'', JObj [(''parameters'', JArr [id_parameter, verbose_parameter])]) reset_disk
      = (None, widgets_disk)"
    by (simp add: widgets_buckets)
  then show ?thesis
    by (simp add: processPathSchemas_def process_endpoint_def widgets_document_def
        lodash_get_def castPath_def js_get_def obj_get_def object_entries_def
        strip_invalid_uri_chars_def uri_char_def squote_def Let_def)
qed

text \<open>
  Claim C1 fails on the code. The two documents written for \<^verbatim>\<open>get /widgets/{id}\<close> have the
  key \<^verbatim>\<open>$id\<close> and no key \<^verbatim>\<open>title\<close>: \<^verbatim>\<open>processParameterSchema\<close> takes the title from the
  \<^verbatim>\<open>name\<close> of the schema it was given, which has none, and \<^verbatim>\<open>JSON.stringify\<close> leaves out a
  member that is \<^verbatim>\<open>undefined\<close>.
\<close>

theorem parameter_schema_without_title:
  "processPathSchemas (example_collaborators JNull) widgets_document ''out'' reset_disk
   = (None, widgets_disk)
   \<and> map snd (tl (files widgets_disk))
       = [serialize 0 widgets_query_schema, serialize 0 widgets_path_schema]
   \<and> \<not> str_includes (serialize 0 widgets_query_schema) (quote ''title'')
   \<and> \<not> str_includes (serialize 0 widgets_path_schema) (quote ''title'')
   \<and> str_includes (serialize 0 widgets_query_schema) (quote ''$id'')
   \<and> str_includes (serialize 0 widgets_path_schema) (quote ''$id'')"
proof -
  have "map snd (tl (files widgets_disk))
       = [serialize 0 widgets_query_schema, serialize 0 widgets_path_schema]"
    by (simp add: widgets_disk_def)
  moreover have "\<not> str_includes (serialize 0 widgets_query_schema) (quote ''title'')"
    "str_includes (serialize 0 widgets_query_schema) (quote ''$id'')"
    by (simp_all add: widgets_query_schema_def stringify_defs)
  moreover have "\<not> str_includes (serialize 0 widgets_path_schema) (quote ''title'')"
    "str_includes (serialize 0 widgets_path_schema) (quote ''$id'')"
    by (simp_all add: widgets_path_schema_def stringify_defs)
  ultimately show ?thesis using widgets_run by simp
qed

section \<open>The disk at a raise\<close>

text \<open>
  A loop raises at one item, after the items before it ran to their end; the raise point
  is read there.
\<close>

lemma raise_point_prefix:
  assumes "forEach f pre s = (None, s')" "f x s' = (Some e, t)"
  shows "raise_point f inner (pre @ x # post) s = inner x s'"
  using assms by (induction pre arbitrary: s) (auto split: prod.splits option.splits)

lemma forEach_raises:
  assumes "forEach f xs s = (Some e, t)"
  shows "\<exists>pre x post s'. xs = pre @ x # post \<and> forEach f pre s = (None, s')
           \<and> f x s' = (Some e, t)"
  using assms
proof (induction xs arbitrary: s)
  case Nil
  then show ?case by simp
next
  case (Cons y ys)
  obtain r1 s1 where f: "f y s = (r1, s1)" by (cases "f y s")
  show ?case
  proof (cases r1)
    case None
    with Cons.prems f have "forEach f ys s1 = (Some e, t)" by simp
    from Cons.IH[OF this] obtain pre x post s' where p: "ys = pre @ x # post"
      "forEach f pre s1 = (None, s')" "f x s' = (Some e, t)"
      by blast
    from p f None have "y # ys = (y # pre) @ x # post \<and> forEach f (y # pre) s = (None, s')
        \<and> f x s' = (Some e, t)"
      by simp
    then show ?thesis by blast
  next
    case (Some e1)
    with Cons.prems f have "y # ys = [] @ y # ys \<and> forEach f [] s = (None, s)
        \<and> f y s = (Some e, t)"
      by simp
    then show ?thesis by blast
  qed
qed

lemma forEach_raise_point:
  assumes "forEach f xs s = (Some e, t)"
    and "\<And>x u u'. x \<in> set xs \<Longrightarrow> f x u = (Some e, u') \<Longrightarrow> \<exists>d. inner x u = Some d \<and> R d u'"
  shows "\<exists>d. raise_point f inner xs s = Some d \<and> R d t"
proof -
  from forEach_raises[OF assms(1)] obtain pre x post s' where p: "xs = pre @ x # post"
    "forEach f pre s = (None, s')" "f x s' = (Some e, t)"
    by blast
  from assms(2)[OF _ p(3)] p(1) obtain d where "inner x s' = Some d" "R d t" by auto
  with raise_point_prefix[OF p(2,3), of inner post] p(1) show ?thesis by simp
qed

text \<open>A body that raises has written no file; one level up, the raise is inside one item.\<close>

lemma processSchema_entry_raise:
  assumes "processSchema_entry env schemasPath kw isArr entry (acc, fs) = (Some e, acc', fs')"
  shows "files fs' = files fs"
  using assms by (cases rule: processSchema_entry_cases) (simp_all add: saveSchema_error_files)

lemma processSchema_raises:
  assumes "processSchema env schema schemasPath kw isArr fs = (Some e, schema', fs')"
  shows "\<exists>d. processSchema_raise env schema schemasPath kw isArr fs = Some d
           \<and> files fs' = files d"
proof (cases "object_entries schema")
  case (Inl e1)
  with assms show ?thesis by (simp add: processSchema_def processSchema_raise_def)
next
  case (Inr entries)
  obtain r1 acc fs1 where
    f: "forEach (processSchema_entry env schemasPath kw isArr) entries ([], fs) = (r1, acc, fs1)"
    by (cases "forEach (processSchema_entry env schemasPath kw isArr) entries ([], fs)") auto
  with assms Inr have r: "r1 = Some e" "fs1 = fs'" by (simp_all add: processSchema_def)
  have "\<exists>d. raise_point (processSchema_entry env schemasPath kw isArr)
              (\<lambda>entry st. Some (snd st)) entries ([], fs) = Some d
            \<and> files (snd (acc, fs')) = files d"
    by (rule forEach_raise_point[OF f[unfolded r], of _ "\<lambda>d u. files (snd u) = files d"])
       (auto dest: processSchema_entry_raise)
  with Inr show ?thesis by (simp add: processSchema_raise_def)
qed

text \<open>
  Read on the entries of a collection: with the entries before \<open>x\<close> written and \<open>x\<close>
  raising, the raise point is the disk those entries left.
\<close>

lemma processSchema_raise_prefix:
  assumes "object_entries schema = Inr (pre @ x # post)"
    and "forEach (processSchema_entry env schemasPath kw isArr) pre ([], fs) = (None, acc, fs1)"
    and "processSchema_entry env schemasPath kw isArr x (acc, fs1) = (Some e, acc', fs')"
  shows "processSchema_raise env schema schemasPath kw isArr fs = Some fs1"
  using raise_point_prefix[OF assms(2,3), of "\<lambda>entry st. Some (snd st)" post] assms(1)
  by (simp add: processSchema_raise_def)

lemma processComponents_raises:
  assumes "processComponents env kws tree parsed schemasPath fs = (Some e, tree', fs')"
  shows "\<exists>d. processComponents_raise env kws tree parsed schemasPath fs = Some d
           \<and> files fs' = files d"
proof -
  have "\<exists>d. processSchema_raise env (lodash_get (fst u) key) schemasPath key
               (isArray (lodash_get parsed key)) (snd u) = Some d
            \<and> files (snd u') = files d"
    if k: "processComponents_key env parsed schemasPath key u = (Some e, u')" for key u u'
  proof -
    obtain tree1 fs1 where u: "u = (tree1, fs1)" by (cases u)
    obtain r2 schema2 fs2 where
      p: "processSchema env (lodash_get tree1 key) schemasPath key
            (isArray (lodash_get parsed key)) fs1 = (r2, schema2, fs2)"
      by (cases "processSchema env (lodash_get tree1 key) schemasPath key
                   (isArray (lodash_get parsed key)) fs1") auto
    with k u have "r2 = Some e" "snd u' = fs2" by (auto simp: processComponents_key.simps)
    with processSchema_raises[of env "lodash_get tree1 key" schemasPath key
        "isArray (lodash_get parsed key)" fs1 e schema2 fs2] p u
    show ?thesis by simp
  qed
  from forEach_raise_point[OF assms[unfolded processComponents_def],
      of "\<lambda>key st. processSchema_raise env (lodash_get (fst st) key) schemasPath key
                     (isArray (lodash_get parsed key)) (snd st)"
         "\<lambda>d u. files (snd u) = files d"] this
  show ?thesis by (simp add: processComponents_raise_def)
qed

lemma processParameterSchema_raise:
  assumes "processParameterSchema schema schemasPath kw filename fs = (Some e, fs')"
  shows "files fs' = files fs"
  using assms unfolding processParameterSchema_def
  by (auto split: sum.splits dest: saveSchema_error_files)

lemma process_bucket_raise:
  assumes "process_bucket env schemasPath folder base entry fs = (Some e, fs')"
  shows "files fs' = files fs"
  using assms unfolding process_bucket_def
  by (auto split: sum.splits if_splits dest: processParameterSchema_raise)

lemma process_option_buckets:
  "process_option env schemasPath pathFolder base entry fs =
     (case option_buckets pathFolder entry of
        Inl e \<Rightarrow> (Some e, fs)
      | Inr None \<Rightarrow> (None, fs)
      | Inr (Some (folder, schemas)) \<Rightarrow>
          forEach (process_bucket env schemasPath folder base) schemas fs)"
  unfolding process_option_def option_buckets_def
  by (simp del: forEach.simps split: sum.splits json.splits)

lemma process_option_raises:
  assumes "process_option env schemasPath pathFolder base entry fs = (Some e, fs')"
  shows "\<exists>d. process_option_raise env schemasPath pathFolder base entry fs = Some d
           \<and> files fs' = files d"
proof (cases "option_buckets pathFolder entry")
  case (Inl e1)
  with assms show ?thesis by (simp add: process_option_buckets process_option_raise_def)
next
  case (Inr b)
  show ?thesis
  proof (cases b)
    case None
    with assms Inr show ?thesis by (simp add: process_option_buckets)
  next
    case (Some p)
    obtain folder schemas where p: "p = (folder, schemas)" by (cases p)
    from assms Inr Some p
    have f: "forEach (process_bucket env schemasPath folder base) schemas fs = (Some e, fs')"
      by (simp add: process_option_buckets)
    have "\<exists>d. raise_point (process_bucket env schemasPath folder base)
                (\<lambda>bucket fs'. Some fs') schemas fs = Some d \<and> files fs' = files d"
      by (rule forEach_raise_point[OF f, of _ "\<lambda>d u. files u = files d"])
         (auto dest: process_bucket_raise)
    with Inr Some p show ?thesis by (simp add: process_option_raise_def)
  qed
qed

lemma process_endpoint_raises:
  assumes "process_endpoint env schemasPath entry fs = (Some e, fs')"
  shows "\<exists>d. process_endpoint_raise env schemasPath entry fs = Some d \<and> files fs' = files d"
proof (cases "object_entries (snd entry)")
  case (Inl e1)
  with assms show ?thesis by (simp add: process_endpoint_def process_endpoint_raise_def)
next
  case (Inr options)
  define pathName where "pathName = strip_invalid_uri_chars (fst entry)"
  define base where "base = map (\<lambda>c. if c = CHR ''/'' then CHR ''_'' else c) pathName"
  from assms Inr
  have f: "forEach (process_option env schemasPath pathName base) options fs = (Some e, fs')"
    by (simp add: process_endpoint_def Let_def pathName_def base_def)
  have "\<exists>d. raise_point (process_option env schemasPath pathName base)
              (process_option_raise env schemasPath pathName base) options fs = Some d
            \<and> files fs' = files d"
    by (rule forEach_raise_point[OF f, of _ "\<lambda>d u. files u = files d"])
       (auto dest: process_option_raises)
  with Inr show ?thesis
    by (simp add: process_endpoint_raise_def Let_def pathName_def base_def)
qed

lemma processPathSchemas_raises:
  assumes "processPathSchemas env tree schemasPath fs = (Some e, fs')"
  shows "\<exists>d. processPathSchemas_raise env tree schemasPath fs = Some d \<and> files fs' = files d"
proof (cases "object_entries (lodash_get tree ''paths'')")
  case (Inl e1)
  with assms show ?thesis by (simp add: processPathSchemas_def processPathSchemas_raise_def)
next
  case (Inr pathSchema)
  with assms
  have f: "forEach (process_endpoint env schemasPath) pathSchema fs = (Some e, fs')"
    by (simp add: processPathSchemas_def)
  have "\<exists>d. raise_point (process_endpoint env schemasPath)
              (process_endpoint_raise env schemasPath) pathSchema fs = Some d
            \<and> files fs' = files d"
    by (rule forEach_raise_point[OF f, of _ "\<lambda>d u. files u = files d"])
       (auto dest: process_endpoint_raises)
  with Inr show ?thesis by (simp add: processPathSchemas_raise_def)
qed

lemma try_block_raises:
  assumes "try_block env parsed kws schemasPath fs = (Some e, fs')"
  shows "\<exists>d. try_block_raise env parsed kws schemasPath fs = Some d \<and> files fs' = files d"
proof (cases "fromSchema env parsed kws")
  case (Inl e1)
  with assms show ?thesis by (simp add: try_block_def try_block_raise_def)
next
  case (Inr tree)
  obtain r1 tree1 fs1 where
    c: "processComponents env kws tree parsed schemasPath fs = (r1, tree1, fs1)"
    by (cases "processComponents env kws tree parsed schemasPath fs") auto
  show ?thesis
  proof (cases r1)
    case None
    with assms Inr c have "processPathSchemas env tree1 schemasPath fs1 = (Some e, fs')"
      by (simp add: try_block_def)
    from processPathSchemas_raises[OF this] Inr c None show ?thesis
      by (simp add: try_block_raise_def)
  next
    case (Some e1)
    with assms Inr c have "e1 = e" "fs1 = fs'" by (simp_all add: try_block_def)
    with processComponents_raises[of env kws tree parsed schemasPath fs e tree1 fs'] c Some Inr
    show ?thesis by (simp add: try_block_raise_def)
  qed
qed

section \<open>The command\<close>

lemma processSchema_entry_keeps:
  assumes "processSchema_entry env schemasPath kw isArr entry st = (r, st')"
    "is_file (snd st) q"
  shows "is_file (snd st') q"
proof -
  obtain acc fs acc' fs' where st: "st = (acc, fs)" "st' = (acc', fs')"
    by (cases st, cases st') auto
  from assms(1)[unfolded st] assms(2)[unfolded st] show ?thesis
    unfolding st by (cases rule: processSchema_entry_cases) (auto dest: saveSchema_keeps)
qed

lemma processSchema_keeps:
  assumes "processSchema env schema schemasPath kw isArr fs = (r, schema', fs')" "is_file fs q"
  shows "is_file fs' q"
proof (cases "object_entries schema")
  case (Inl e)
  with assms show ?thesis by (simp add: processSchema_def)
next
  case (Inr entries)
  obtain r1 acc fs1 where
    f: "forEach (processSchema_entry env schemasPath kw isArr) entries ([], fs) = (r1, acc, fs1)"
    by (cases "forEach (processSchema_entry env schemasPath kw isArr) entries ([], fs)") auto
  with assms(1) Inr have "fs' = fs1" by (simp add: processSchema_def)
  moreover have "is_file (snd (acc, fs1)) q"
    by (rule forEach_invariant[OF f, of "\<lambda>st. is_file (snd st) q"])
       (use assms(2) in \<open>auto dest: processSchema_entry_keeps\<close>)
  ultimately show ?thesis by simp
qed

lemma processComponents_key_keeps:
  assumes "processComponents_key env parsed schemasPath key st = (r, st')" "is_file (snd st) q"
  shows "is_file (snd st') q"
proof -
  obtain tree fs where st: "st = (tree, fs)" by (cases st)
  obtain r1 schema' fs1 where
    p: "processSchema env (lodash_get tree key) schemasPath key (isArray (lodash_get parsed key)) fs
          = (r1, schema', fs1)"
    by (cases "processSchema env (lodash_get tree key) schemasPath key
                 (isArray (lodash_get parsed key)) fs") auto
  with assms(1) st have "snd st' = fs1" by (auto simp: processComponents_key.simps)
  with processSchema_keeps[OF p] assms(2) st show ?thesis by simp
qed

lemma processComponents_keeps:
  assumes "processComponents env kws tree parsed schemasPath fs = (r, tree', fs')" "is_file fs q"
  shows "is_file fs' q"
proof -
  have "is_file (snd (tree', fs')) q"
    by (rule forEach_invariant[OF assms(1)[unfolded processComponents_def],
          of "\<lambda>st. is_file (snd st) q"])
       (use assms(2) in \<open>auto dest: processComponents_key_keeps\<close>)
  then show ?thesis by simp
qed

lemma processParameterSchema_keeps:
  assumes "processParameterSchema schema schemasPath kw filename fs = (r, fs')" "is_file fs q"
  shows "is_file fs' q"
  using assms unfolding processParameterSchema_def
  by (auto split: sum.splits dest: saveSchema_keeps)

lemma process_bucket_keeps:
  assumes "process_bucket env schemasPath folder base entry fs = (r, fs')" "is_file fs q"
  shows "is_file fs' q"
  using assms unfolding process_bucket_def
  by (auto split: sum.splits if_splits dest: processParameterSchema_keeps)

lemma process_option_keeps:
  assumes "process_option env schemasPath folder base entry fs = (r, fs')" "is_file fs q"
  shows "is_file fs' q"
  using assms unfolding process_option_def
  by (auto simp del: forEach.simps split: sum.splits if_splits json.splits
      dest: forEach_keeps[where q = q, OF _ _ process_bucket_keeps])

lemma process_endpoint_keeps:
  assumes "process_endpoint env schemasPath entry fs = (r, fs')" "is_file fs q"
  shows "is_file fs' q"
  using assms unfolding process_endpoint_def Let_def
  by (auto split: sum.splits dest: forEach_keeps[where q = q, OF _ _ process_option_keeps])

lemma processPathSchemas_keeps:
  assumes "processPathSchemas env tree schemasPath fs = (r, fs')" "is_file fs q"
  shows "is_file fs' q"
  using assms unfolding processPathSchemas_def
  by (auto split: sum.splits dest: forEach_keeps[where q = q, OF _ _ process_endpoint_keeps])

lemma try_block_keeps:
  assumes "try_block env parsed kws schemasPath fs = (r, fs')" "is_file fs q"
  shows "is_file fs' q"
proof (cases "fromSchema env parsed kws")
  case (Inl e)
  with assms show ?thesis by (simp add: try_block_def)
next
  case (Inr tree)
  obtain r1 tree1 fs1 where
    c: "processComponents env kws tree parsed schemasPath fs = (r1, tree1, fs1)"
    by (cases "processComponents env kws tree parsed schemasPath fs") auto
  note k = processComponents_keeps[OF c assms(2)]
  show ?thesis
  proof (cases r1)
    case None
    with assms(1) Inr c have "processPathSchemas env tree1 schemasPath fs1 = (r, fs')"
      by (simp add: try_block_def)
    from processPathSchemas_keeps[OF this k] show ?thesis .
  next
    case (Some e)
    with assms(1) Inr c k show ?thesis by (simp add: try_block_def)
  qed
qed

lemma reset_work_disk:
  "ensureDirSync ''out'' (removeSync ''out'' work_disk) = (None, reset_disk)"
  by (simp add: work_disk_def reset_disk_def fs_defs)

lemma try_block_malformed:
  "try_block (example_collaborators malformed_document) malformed_document
     (componentsKeywords None) ''out'' reset_disk = (Some TypeError, disk_after_A)"
  by (simp add: malformed_document_def reset_disk_def disk_after_A_def run_defs fs_defs obj_defs
      JSON_stringify_def del: serialize.simps)

lemma try_block_raise_malformed:
  "try_block_raise (example_collaborators malformed_document) malformed_document
     (componentsKeywords None) ''out'' reset_disk = Some disk_after_A"
  by (simp add: try_block_raise_def processComponents_raise_def processSchema_raise_def
      malformed_document_def reset_disk_def disk_after_A_def run_defs fs_defs obj_defs
      JSON_stringify_def del: serialize.simps)

text \<open>
  Claim C7. When the output directory was reset, the input was read and parsed, and a
  step of the extraction (the conversion, a component, a parameter list) raises, then
  \<^verbatim>\<open>runCommand\<close> returns normally with the warning as its only log entry. The files it
  leaves, each with its content, are those of the disk in which the step that raised was
  started, the disk left by the steps that ran to their end before it: what they wrote
  is there as they wrote it, nothing is undone, and nothing is written by the step that
  raised or after it. No file that was on disk when the extraction started is missing.
\<close>

theorem runCommand_no_rollback:
  assumes "ensureDirSync schemasPath (removeSync schemasPath fs) = (None, fs1)"
    and "readFileSync openApiPath fs1 = Inr openAPIContent"
    and "YAML_parse env openAPIContent = Inr parsed"
    and "try_block env parsed (componentsKeywords propertiesToExport) schemasPath fs1
           = (Some e, fs2)"
  shows "runCommand env openApiPath schemasPath propertiesToExport fs
           = (Returned, [Warn_failed_to_convert_non_object_attribute], fs2)
         \<and> (\<exists>d. try_block_raise env parsed (componentsKeywords propertiesToExport)
                  schemasPath fs1 = Some d
                \<and> files fs2 = files d)
         \<and> (\<forall>q. is_file fs1 q \<longrightarrow> is_file fs2 q)"
  using assms try_block_keeps[OF assms(4)] try_block_raises[OF assms(4)]
  by (simp add: runCommand_def)

text \<open>
  The example of the specification: the schema \<^verbatim>\<open>Foo\<close> is not an object. The raise is at
  \<^verbatim>\<open>Foo\<close>, on the disk that holds the file of the schema \<^verbatim>\<open>A\<close> before it; that file stays
  as it was written, and the schema \<^verbatim>\<open>B\<close> after it is not written.
\<close>

theorem runCommand_no_rollback_witness:
  "ensureDirSync ''out'' (removeSync ''out'' work_disk) = (None, reset_disk)
   \<and> readFileSync ''api.yaml'' reset_disk = Inr ''openapi: 3.0.0''
   \<and> YAML_parse (example_collaborators malformed_document) ''openapi: 3.0.0''
        = Inr malformed_document
   \<and> try_block (example_collaborators malformed_document) malformed_document
        (componentsKeywords None) ''out'' reset_disk = (Some TypeError, disk_after_A)
   \<and> runCommand (example_collaborators malformed_document) ''api.yaml'' ''out'' None work_disk
        = (Returned, [Warn_failed_to_convert_non_object_attribute], disk_after_A)
   \<and> try_block_raise (example_collaborators malformed_document) malformed_document
        (componentsKeywords None) ''out'' reset_disk = Some disk_after_A
   \<and> map fst (files disk_after_A)
       = [[''work'', ''api.yaml''], [''work'', ''out'', ''components.schemas'', ''A.json'']]
   \<and> readFileSync ''out/components.schemas/A.json'' disk_after_A
       = Inr (rewrite_refs
                (serialize 0 (JObj [(''type'', JStr ''string''), (''title'', JStr ''A''),
                                    (''$id'', JStr ''A.json'')])))"
proof -
  have r: "readFileSync ''api.yaml'' reset_disk = Inr ''openapi: 3.0.0''"
    by (simp add: reset_disk_def fs_defs)
  have y: "YAML_parse (example_collaborators malformed_document) ''openapi: 3.0.0''
        = Inr malformed_document"
    by (simp add: example_collaborators_def)
  have f: "map fst (files disk_after_A)
       = [[''work'', ''api.yaml''], [''work'', ''out'', ''components.schemas'', ''A.json'']]"
    by (simp add: disk_after_A_def)
  have a: "readFileSync ''out/components.schemas/A.json'' disk_after_A
       = Inr (rewrite_refs
                (serialize 0 (JObj [(''type'', JStr ''string''), (''title'', JStr ''A''),
                                    (''$id'', JStr ''A.json'')])))"
    by (simp add: disk_after_A_def fs_defs del: serialize.simps)
  from runCommand_no_rollback[OF reset_work_disk r y try_block_malformed]
    reset_work_disk r y try_block_malformed try_block_raise_malformed f a
  show ?thesis by simp
qed

text \<open>
  Claim C8. When the output directory could be reset and the read of the input fails,
  \<^verbatim>\<open>runCommand\<close> ends the process with status 1 after logging the error, and the file
  system is then the one the reset left: the output directory exists, and there is no
  file and no directory in it.
\<close>

theorem runCommand_unreadable_input:
  assumes "ensureDirSync schemasPath (removeSync schemasPath fs) = (None, fs1)"
    and "readFileSync openApiPath fs1 = Inl e"
  shows "runCommand env openApiPath schemasPath propertiesToExport fs
           = (Exited 1, [Error_could_not_find_the_OpenAPI_file], fs1)
         \<and> is_dir fs1 (resolve fs schemasPath)
         \<and> dir_empty fs1 (resolve fs schemasPath)"
  using assms reset_directory[OF assms(1)]
  by (simp add: runCommand_def)

text \<open>An output directory that held a file of an earlier run, and an input that is not there.\<close>

theorem runCommand_unreadable_input_witness:
  "ensureDirSync ''out'' (removeSync ''out'' work_disk) = (None, reset_disk)
   \<and> readFileSync ''missing.yaml'' reset_disk = Inl FsError
   \<and> runCommand (example_collaborators JNull) ''missing.yaml'' ''out'' None work_disk
        = (Exited 1, [Error_could_not_find_the_OpenAPI_file], reset_disk)
   \<and> is_dir reset_disk [''work'', ''out'']
   \<and> dir_empty reset_disk [''work'', ''out'']"
proof -
  have r: "readFileSync ''missing.yaml'' reset_disk = Inl FsError"
    by (simp add: reset_disk_def fs_defs)
  have o: "resolve work_disk ''out'' = [''work'', ''out'']"
    by (simp add: work_disk_def fs_defs)
  from runCommand_unreadable_input[OF reset_work_disk r, of "example_collaborators JNull" None]
    reset_work_disk r o
  show ?thesis by simp
qed

end
